theory Spec2Isabelle
  imports Complex_Main "HOL-Library.Sublist" "HOL-Library.Multiset" "HOL-Library.Product_Lexorder"
begin

section \<open>Data model (frontend/src/App.tsx, section Types)\<close>

text \<open>
  A JavaScript number that carries a score is modelled by its value, a \<open>real\<close>
  (scores come from JSON, so they are finite and never NaN); comparison is that of the
  values, and the one addition on scores, the alias bonus, is the rounded addition
  \<open>jsAdd\<close> below. A score that is \<open>undefined\<close>, \<open>null\<close> or not a number is
  \<open>None\<close>. Optional fields are options, strings are \<open>string\<close>, and a string is
  truthy exactly when it is non-empty. The objects \<open>overrides\<close> and \<open>aliases\<close> are
  maps over their own keys; a read of \<open>aliases\<close> also sees what the object inherits
  (\<open>getAlias\<close> below).
\<close>

record Candidate =
  symbol :: string
  cname :: string
  ctype :: "string option"
  score :: "real option"
  source :: "string option"

record RowInput =
  in_Name :: "string option"
  in_Symbol :: "string option"

record PreviewRow =
  index :: nat
  status :: string
  candidates :: "Candidate list option"
  row_notes :: "string option"
  input :: "RowInput option"
  Name :: "string option"
  Symbol :: "string option"

datatype RiskLevel = HIGH | MEDIUM | LOW

record PendingChange =
  pc_index :: nat
  pc_name :: string
  fromSymbol :: string
  toSymbol :: string
  pc_score :: "real option"
  pc_source :: "string option"
  risk :: RiskLevel

section \<open>String helpers\<close>

text \<open>
  The JavaScript string methods used by the code, on ASCII text: \<open>toUpperCase\<close>,
  \<open>toLowerCase\<close>, \<open>trim\<close> and \<open>includes\<close>.
\<close>

definition upper_char :: "char \<Rightarrow> char" where
  "upper_char c =
     (let n = (of_char c :: nat) in if 97 \<le> n \<and> n \<le> 122 then char_of (n - 32) else c)"

definition lower_char :: "char \<Rightarrow> char" where
  "lower_char c =
     (let n = (of_char c :: nat) in if 65 \<le> n \<and> n \<le> 90 then char_of (n + 32) else c)"

definition toUpperCase :: "string \<Rightarrow> string" where
  "toUpperCase s = map upper_char s"

definition toLowerCase :: "string \<Rightarrow> string" where
  "toLowerCase s = map lower_char s"

definition is_space :: "char \<Rightarrow> bool" where
  "is_space c = ((of_char c :: nat) \<in> {9, 10, 11, 12, 13, 32})"

definition trim :: "string \<Rightarrow> string" where
  "trim s = rev (dropWhile is_space (rev (dropWhile is_space s)))"

definition includes_str :: "string \<Rightarrow> string \<Rightarrow> bool" where
  "includes_str s q = sublist q s"

text \<open>\<open>norm = (s) => (s ?? "").toString().trim().toLowerCase()\<close>\<close>

definition norm_str :: "string option \<Rightarrow> string" where
  "norm_str s = toLowerCase (trim (case s of None \<Rightarrow> [] | Some x \<Rightarrow> x))"

text \<open>Truthiness of an optional string: defined and non-empty.\<close>

definition truthy :: "string option \<Rightarrow> bool" where
  "truthy s = (case s of None \<Rightarrow> False | Some x \<Rightarrow> x \<noteq> [])"

section \<open>Row accessors\<close>

text \<open>\<open>r.candidates ?? []\<close>, as read by \<open>r.candidates?.[0]\<close>, \<open>?.length\<close> and \<open>?.find\<close>.\<close>

definition cands :: "PreviewRow \<Rightarrow> Candidate list" where
  "cands r = (case candidates r of None \<Rightarrow> [] | Some cs \<Rightarrow> cs)"

text \<open>\<open>r.candidates?.[0]\<close>\<close>

definition top_of :: "PreviewRow \<Rightarrow> Candidate option" where
  "top_of r = (case cands r of [] \<Rightarrow> None | c # _ \<Rightarrow> Some c)"

text \<open>\<open>r.Name ?? r.input?.Name\<close> and \<open>r.Symbol ?? r.input?.Symbol\<close>\<close>

definition nameOf :: "PreviewRow \<Rightarrow> string option" where
  "nameOf r =
     (case Name r of
        Some n \<Rightarrow> Some n
      | None \<Rightarrow> (case input r of None \<Rightarrow> None | Some i \<Rightarrow> in_Name i))"

definition symbolOf :: "PreviewRow \<Rightarrow> string option" where
  "symbolOf r =
     (case Symbol r of
        Some n \<Rightarrow> Some n
      | None \<Rightarrow> (case input r of None \<Rightarrow> None | Some i \<Rightarrow> in_Symbol i))"

definition orEmpty :: "string option \<Rightarrow> string" where
  "orEmpty s = (case s of None \<Rightarrow> [] | Some x \<Rightarrow> x)"

section \<open>JavaScript numbers: rounding to a double\<close>

text \<open>
  A Number is an IEEE 754 double: a sum is the exact sum rounded to the nearest double,
  ties to the even significand, and a decimal literal is the double nearest to it.
  \<open>roundDouble\<close> rounds to 53 significant bits: the magnitude is scaled by powers of two
  into [2^52, 2^53), rounded to an integer, and scaled back. The exponent is not
  bounded. For a finite score \<open>s\<close> this agrees with the double arithmetic on
  \<open>s + 0.05\<close>: the sum never overflows, and a sum of two doubles that falls into the
  subnormal range is exact.
\<close>

function scaleUp :: "real \<Rightarrow> int \<Rightarrow> real \<times> int" where
  "scaleUp x e = (if 0 < x \<and> x < 2 ^ 52 then scaleUp (2 * x) (e - 1) else (x, e))"
  by pat_completeness auto
termination
proof (relation "measure (\<lambda>(x, e). nat \<lfloor>2 ^ 52 / x\<rfloor>)")
  show "wf (measure (\<lambda>(x, e). nat \<lfloor>2 ^ 52 / x\<rfloor>))" by simp
next
  fix x :: real and e :: int
  assume a: "0 < x \<and> x < 2 ^ 52"
  let ?c = "2 ^ 52 / x"
  from a have "1 < ?c" by simp
  then have f: "1 \<le> \<lfloor>?c\<rfloor>" by simp
  have "\<lfloor>2 ^ 52 / (2 * x)\<rfloor> = \<lfloor>?c / real_of_int 2\<rfloor>" by simp
  also have "\<dots> = \<lfloor>?c\<rfloor> div 2" by (rule floor_divide_real_eq_div) simp
  also have "\<dots> < \<lfloor>?c\<rfloor>" using f by linarith
  finally show "((2 * x, e - 1), (x, e)) \<in> measure (\<lambda>(x, e). nat \<lfloor>2 ^ 52 / x\<rfloor>)"
    using f by auto
qed

function scaleDown :: "real \<Rightarrow> int \<Rightarrow> real \<times> int" where
  "scaleDown x e = (if 2 ^ 53 \<le> x then scaleDown (x / 2) (e + 1) else (x, e))"
  by pat_completeness auto
termination
proof (relation "measure (\<lambda>(x, e). nat \<lfloor>x\<rfloor>)")
  show "wf (measure (\<lambda>(x, e). nat \<lfloor>x\<rfloor>))" by simp
next
  fix x :: real and e :: int
  assume a: "2 ^ 53 \<le> x"
  then have f: "1 \<le> \<lfloor>x\<rfloor>" by simp
  have "\<lfloor>x / 2\<rfloor> = \<lfloor>x / real_of_int 2\<rfloor>" by simp
  also have "\<dots> = \<lfloor>x\<rfloor> div 2" by (rule floor_divide_real_eq_div) simp
  also have "\<dots> < \<lfloor>x\<rfloor>" using f by linarith
  finally show "((x / 2, e + 1), (x, e)) \<in> measure (\<lambda>(x, e). nat \<lfloor>x\<rfloor>)"
    using f by auto
qed

text \<open>Rounding to the nearest integer, a tie going to the even one.\<close>

definition roundHalfEven :: "real \<Rightarrow> int" where
  "roundHalfEven y =
     (let f = \<lfloor>y\<rfloor>; r = y - of_int f
      in if r < 1 / 2 then f else if 1 / 2 < r then f + 1 else if even f then f else f + 1)"

definition pow2 :: "int \<Rightarrow> real" where
  "pow2 e = (if 0 \<le> e then 2 ^ nat e else 1 / 2 ^ nat (- e))"

definition roundDouble :: "real \<Rightarrow> real" where
  "roundDouble x =
     (if x = 0 then 0
      else
        (case scaleUp \<bar>x\<bar> 0 of (y, e) \<Rightarrow>
           (case scaleDown y e of (z, e') \<Rightarrow>
              sgn x * of_int (roundHalfEven z) * pow2 e')))"

text \<open>The value of a decimal literal, and \<open>x + y\<close> on Numbers.\<close>

definition jsNum :: "real \<Rightarrow> real" where
  "jsNum x = roundDouble x"

definition jsAdd :: "real \<Rightarrow> real \<Rightarrow> real" where
  "jsAdd x y = roundDouble (x + y)"

section \<open>Learned aliases applied to a preview (onChooseFile)\<close>

text \<open>\<open>Array.prototype.findIndex\<close>: the first position that satisfies the predicate;
  \<open>None\<close> stands for the result -1.\<close>

fun findIndex :: "('a \<Rightarrow> bool) \<Rightarrow> 'a list \<Rightarrow> nat option" where
  "findIndex P [] = None"
| "findIndex P (x # xs) =
     (if P x then Some 0 else (case findIndex P xs of None \<Rightarrow> None | Some i \<Rightarrow> Some (Suc i)))"

text \<open>\<open>{ ...hit, score: typeof hit.score === "number" ? Math.min(hit.score + 0.05, 0.999)
  : hit.score }\<close>\<close>

definition bumped :: "Candidate \<Rightarrow> Candidate" where
  "bumped hit =
     hit\<lparr>score := (case score hit of
                      None \<Rightarrow> None
                    | Some s \<Rightarrow> Some (min (jsAdd s (jsNum 0.05)) (jsNum 0.999)))\<rparr>"

text \<open>
  The value of \<open>aliases[nm]\<close>. The alias object is a plain object: a key it does not
  own is looked up in \<open>Object.prototype\<close>. A normalized name is lower-case, and the only
  lower-case names found there are \<open>constructor\<close> (a function) and \<open>__proto__\<close> (an
  object): truthy values that have no \<open>toUpperCase\<close> method.
\<close>

datatype js_value = Undefined | Str string | Inherited

datatype js_error = TypeError

definition getAlias :: "(string \<rightharpoonup> string) \<Rightarrow> string \<Rightarrow> js_value" where
  "getAlias al nm =
     (case al nm of
        Some v \<Rightarrow> Str v
      | None \<Rightarrow> if nm = ''constructor'' \<or> nm = ''__proto__'' then Inherited else Undefined)"

definition truthyValue :: "js_value \<Rightarrow> bool" where
  "truthyValue v = (case v of Undefined \<Rightarrow> False | Str s \<Rightarrow> s \<noteq> [] | Inherited \<Rightarrow> True)"

text \<open>The predicate of the \<open>findIndex\<close> call:
  \<open>c.symbol?.toUpperCase() === learned.toUpperCase()\<close>, for a string \<open>learned\<close>.\<close>

definition matchesLearned :: "string \<Rightarrow> Candidate \<Rightarrow> bool" where
  "matchesLearned learned c = (toUpperCase (symbol c) = toUpperCase learned)"

text \<open>
  The alias block of the row callback, \<open>learned\<close> being \<open>aliases[nm]\<close>. When it is truthy
  and the list is non-empty, \<open>findIndex\<close> runs: on an inherited value the first call of
  its predicate throws (\<open>learned.toUpperCase\<close> is not a function); on a string the first
  matching candidate is spliced out, bumped and unshifted. The second component of the
  result tells whether that happened (\<open>applied++\<close>).
\<close>

definition applyLearned :: "js_value \<Rightarrow> Candidate list \<Rightarrow> js_error + Candidate list \<times> bool" where
  "applyLearned learned cs =
     (if truthyValue learned \<and> length cs > 0 then
        (case learned of
           Undefined \<Rightarrow> Inr (cs, False)
         | Inherited \<Rightarrow> Inl TypeError
         | Str l \<Rightarrow>
             (case findIndex (matchesLearned l) cs of
                None \<Rightarrow> Inr (cs, False)
              | Some idx \<Rightarrow> Inr (bumped (cs ! idx) # (take idx cs @ drop (Suc idx) cs), True)))
      else Inr (cs, False))"

text \<open>A row of the server's JSON answer, before normalisation: \<open>index\<close> may be absent.\<close>

record RawRow =
  raw_index :: "nat option"
  raw_status :: string
  raw_candidates :: "Candidate list option"
  raw_notes :: "string option"
  raw_input :: "RowInput option"
  raw_Name :: "string option"
  raw_Symbol :: "string option"

text \<open>\<open>r.candidates || []\<close> on a raw row.\<close>

definition rawCands :: "RawRow \<Rightarrow> Candidate list" where
  "rawCands r = (case raw_candidates r of None \<Rightarrow> [] | Some cs \<Rightarrow> cs)"

text \<open>\<open>r.Name ?? r.input?.Name\<close> on a raw row.\<close>

definition rawNameOf :: "RawRow \<Rightarrow> string option" where
  "rawNameOf r =
     (case raw_Name r of
        Some n \<Rightarrow> Some n
      | None \<Rightarrow> (case raw_input r of None \<Rightarrow> None | Some inp \<Rightarrow> in_Name inp))"

text \<open>The callback of \<open>data.map((r, i) => ...)\<close>: the row and whether an alias was
  applied to it, or the error thrown. \<open>al\<close> is the learned-alias map (normalized name to
  symbol).\<close>

definition normalizeRow ::
  "(string \<rightharpoonup> string) \<Rightarrow> RawRow \<Rightarrow> nat \<Rightarrow> js_error + PreviewRow \<times> bool" where
  "normalizeRow al r i =
     (let out = \<lparr> index = (case raw_index r of None \<Rightarrow> i | Some k \<Rightarrow> k),
                  status = raw_status r,
                  candidates = Some (rawCands r),
                  row_notes = raw_notes r,
                  input = raw_input r,
                  Name = (case raw_Name r of
                            Some n \<Rightarrow> Some n
                          | None \<Rightarrow> (case raw_input r of None \<Rightarrow> None | Some inp \<Rightarrow> in_Name inp)),
                  Symbol = (case raw_Symbol r of
                              Some n \<Rightarrow> Some n
                            | None \<Rightarrow> (case raw_input r of None \<Rightarrow> None | Some inp \<Rightarrow> in_Symbol inp)) \<rparr>;
          nm = norm_str (nameOf out);
          learned = getAlias al nm
      in case applyLearned learned (cands out) of
           Inl err \<Rightarrow> Inl err
         | Inr res \<Rightarrow> Inr (out\<lparr>candidates := Some (fst res)\<rparr>, snd res))"

text \<open>\<open>data.map\<close> calls the callback on the rows in order, with their positions; an error
  thrown by a call ends the map.\<close>

fun normalizeFrom ::
  "(string \<rightharpoonup> string) \<Rightarrow> nat \<Rightarrow> RawRow list \<Rightarrow> js_error + (PreviewRow \<times> bool) list" where
  "normalizeFrom al i [] = Inr []"
| "normalizeFrom al i (r # rs) =
     (case normalizeRow al r i of
        Inl err \<Rightarrow> Inl err
      | Inr x \<Rightarrow>
          (case normalizeFrom al (Suc i) rs of
             Inl err \<Rightarrow> Inl err
           | Inr xs \<Rightarrow> Inr (x # xs)))"

text \<open>\<open>normalized\<close> and the counter \<open>applied\<close> of onChooseFile. On an error the
  function's \<open>catch\<close> reports it and the rows stay empty.\<close>

definition normalized :: "(string \<rightharpoonup> string) \<Rightarrow> RawRow list \<Rightarrow> js_error + PreviewRow list" where
  "normalized al data =
     (case normalizeFrom al 0 data of Inl err \<Rightarrow> Inl err | Inr xs \<Rightarrow> Inr (map fst xs))"

definition applied :: "(string \<rightharpoonup> string) \<Rightarrow> RawRow list \<Rightarrow> js_error + nat" where
  "applied al data =
     (case normalizeFrom al 0 data of
        Inl err \<Rightarrow> Inl err
      | Inr xs \<Rightarrow> Inr (length (filter snd xs)))"

section \<open>Risk classifier\<close>

text \<open>\<open>riskOf(score?, source?)\<close>: the source argument is accepted and never read.\<close>

definition riskOf :: "real option \<Rightarrow> string option \<Rightarrow> RiskLevel" where
  "riskOf sc src =
     (case sc of
        None \<Rightarrow> HIGH
      | Some s \<Rightarrow> if s \<ge> 0.85 then LOW else if s \<ge> 0.6 then MEDIUM else HIGH)"

text \<open>The severity table \<open>rk = { HIGH: 2, MEDIUM: 1, LOW: 0 }\<close> of the change-set sort.\<close>

fun rk :: "RiskLevel \<Rightarrow> int" where
  "rk HIGH = 2"
| "rk MEDIUM = 1"
| "rk LOW = 0"

section \<open>Commit preview (openCommitPreview)\<close>

text \<open>
  One pass of the loop \<open>for (const r of rows)\<close>: the entry pushed for the row, or
  \<open>None\<close> where the loop continues. \<open>ov\<close> is the override map (row index to symbol).
\<close>

definition pendingChangeOf :: "(nat \<rightharpoonup> string) \<Rightarrow> PreviewRow \<Rightarrow> PendingChange option" where
  "pendingChangeOf ov r =
     (let to = ov (index r) in
      if \<not> truthy to \<and> status r \<noteq> ''FILLED'' then None
      else
        let top = top_of r;
            chosen = (if truthy to then to
                      else if status r = ''FILLED'' then map_option symbol top else Some [])
        in if \<not> truthy chosen then None
           else
             let hit = find (\<lambda>c. Some (symbol c) = to) (cands r);
                 sc = (if truthy to then Option.bind hit score else Option.bind top score);
                 src = (if truthy to then Option.bind hit source else Option.bind top source)
             in Some \<lparr> pc_index = index r,
                       pc_name = orEmpty (nameOf r),
                       fromSymbol = orEmpty (symbolOf r),
                       toSymbol = orEmpty chosen,
                       pc_score = sc,
                       pc_source = src,
                       risk = riskOf sc src \<rparr>)"

fun collectChanges :: "(nat \<rightharpoonup> string) \<Rightarrow> PreviewRow list \<Rightarrow> PendingChange list" where
  "collectChanges ov [] = []"
| "collectChanges ov (r # rs) =
     (case pendingChangeOf ov r of
        None \<Rightarrow> collectChanges ov rs
      | Some c \<Rightarrow> c # collectChanges ov rs)"

text \<open>\<open>a.score ?? -1\<close>\<close>

definition scoreOr :: "PendingChange \<Rightarrow> real" where
  "scoreOr c = (case pc_score c of None \<Rightarrow> - 1 | Some s \<Rightarrow> s)"

text \<open>The comparator handed to \<open>changes.sort\<close>: negative puts \<open>a\<close> first.\<close>

definition compareChanges :: "PendingChange \<Rightarrow> PendingChange \<Rightarrow> real" where
  "compareChanges a b =
     (let d = rk (risk a) - rk (risk b) in
      if d \<noteq> 0 then (if d > 0 then - 1 else 1)
      else scoreOr b - scoreOr a)"

text \<open>
  \<open>Array.prototype.sort\<close> with a comparator is a stable sort; it is modelled as the
  stable insertion sort that places an element before the first later element it does
  not compare greater than.
\<close>

fun insertBy :: "('a \<Rightarrow> 'a \<Rightarrow> real) \<Rightarrow> 'a \<Rightarrow> 'a list \<Rightarrow> 'a list" where
  "insertBy cmp x [] = [x]"
| "insertBy cmp x (y # ys) = (if cmp x y \<le> 0 then x # y # ys else y # insertBy cmp x ys)"

fun sortBy :: "('a \<Rightarrow> 'a \<Rightarrow> real) \<Rightarrow> 'a list \<Rightarrow> 'a list" where
  "sortBy cmp [] = []"
| "sortBy cmp (x # xs) = insertBy cmp x (sortBy cmp xs)"

text \<open>
  The sort key that the comparator induces under the lexicographic order on pairs:
  higher severity first, then higher score (an absent score counts as -1).
\<close>

definition changeKey :: "PendingChange \<Rightarrow> int \<times> real" where
  "changeKey c = (- rk (risk c), - scoreOr c)"

section \<open>Application state and its operations\<close>

text \<open>
  The React state of \<open>App\<close> that the operations below read or write. \<open>lastRun\<close> holds
  the wall-clock readings of the last preview and commit. The activity log and the toasts
  are write-only output and are left out.
\<close>

record LastRun =
  filename :: "string option"
  startedAt :: "real option"
  finishedAt :: "real option"
  durationMs :: "real option"
  commitDurationMs :: "real option"

record AppState =
  rows :: "PreviewRow list"
  overrides :: "nat \<rightharpoonup> string"
  aliases :: "string \<rightharpoonup> string"
  statusFilter :: string
  qDebounced :: string
  bulkMinScore :: real
  pendingChanges :: "PendingChange list"
  commitPreviewOpen :: bool
  lastRun :: LastRun

text \<open>With no rows the function only shows a warning and returns.\<close>

definition openCommitPreview :: "AppState \<Rightarrow> AppState" where
  "openCommitPreview s =
     (if rows s = [] then s
      else s\<lparr> pendingChanges := sortBy compareChanges (collectChanges (overrides s) (rows s)),
              commitPreviewOpen := True \<rparr>)"

text \<open>\<open>setOverrideForRow(rowIndex, value)\<close>: the empty value deletes the row's entry;
  any other value is stored and learned as the alias of the row's normalized name.\<close>

definition setOverrideForRow :: "nat \<Rightarrow> string \<Rightarrow> AppState \<Rightarrow> AppState" where
  "setOverrideForRow rowIndex v s =
     (if v = [] then s\<lparr> overrides := (overrides s)(rowIndex := None) \<rparr>
      else
        let r = find (\<lambda>rr. index rr = rowIndex) (rows s);
            nm = norm_str (case r of None \<Rightarrow> None | Some rr \<Rightarrow> nameOf rr)
        in s\<lparr> overrides := (overrides s)(rowIndex \<mapsto> v),
                aliases := (if nm \<noteq> [] then (aliases s)(nm \<mapsto> v) else aliases s) \<rparr>)"

text \<open>The rows shown under the status filter and the (debounced) search text.\<close>

definition visible :: "string \<Rightarrow> string \<Rightarrow> PreviewRow \<Rightarrow> bool" where
  "visible sf q r =
     (if sf \<noteq> ''ALL'' \<and> status r \<noteq> sf then False
      else if q = [] then True
      else
        let nm = toLowerCase (orEmpty (nameOf r));
            sym = toLowerCase (orEmpty (symbolOf r));
            top = (case top_of r of None \<Rightarrow> [] | Some c \<Rightarrow> toLowerCase (symbol c))
        in includes_str nm q \<or> includes_str sym q
           \<or> includes_str (toLowerCase (status r)) q \<or> includes_str top q)"

definition filtered :: "AppState \<Rightarrow> PreviewRow list" where
  "filtered s =
     (let q = toLowerCase (trim (qDebounced s))
      in filter (visible (statusFilter s) q) (rows s))"

text \<open>
  One pass of the loop of \<open>bulkApplyTopCandidates\<close> over a filtered row, on the triple
  of the override map being built, the alias map and the counter \<open>changed\<close>.
\<close>

definition bulkStep ::
  "real \<Rightarrow> PreviewRow \<Rightarrow> (nat \<rightharpoonup> string) \<times> (string \<rightharpoonup> string) \<times> nat
     \<Rightarrow> (nat \<rightharpoonup> string) \<times> (string \<rightharpoonup> string) \<times> nat" where
  "bulkStep minScore r acc =
     (case acc of (nxt, al, changed) \<Rightarrow>
        if (status r = ''FILLED'' \<or> status r = ''AMBIGUOUS'') \<and> length (cands r) > 0 then
          let top = hd (cands r) in
          if (case score top of None \<Rightarrow> False | Some sc \<Rightarrow> sc < minScore) then acc
          else
            let nm = norm_str (nameOf r)
            in (nxt(index r \<mapsto> symbol top),
                (if nm \<noteq> [] then al(nm \<mapsto> symbol top) else al),
                Suc changed)
        else acc)"

fun bulkLoop ::
  "real \<Rightarrow> PreviewRow list \<Rightarrow> (nat \<rightharpoonup> string) \<times> (string \<rightharpoonup> string) \<times> nat
     \<Rightarrow> (nat \<rightharpoonup> string) \<times> (string \<rightharpoonup> string) \<times> nat" where
  "bulkLoop minScore [] acc = acc"
| "bulkLoop minScore (r # rs) acc = bulkLoop minScore rs (bulkStep minScore r acc)"

definition bulkApplyTopCandidates :: "AppState \<Rightarrow> AppState" where
  "bulkApplyTopCandidates s =
     (case bulkLoop (bulkMinScore s) (filtered s) (overrides s, aliases s, 0) of
        (nxt, al, changed) \<Rightarrow> s\<lparr> overrides := nxt, aliases := al \<rparr>)"

text \<open>
  The rows for which the loop body writes: status FILLED or AMBIGUOUS, at least one
  candidate, and a top score that is not a number below the threshold.
\<close>

definition bulkAccepts :: "real \<Rightarrow> PreviewRow \<Rightarrow> bool" where
  "bulkAccepts m r =
     ((status r = ''FILLED'' \<or> status r = ''AMBIGUOUS'') \<and> cands r \<noteq> []
      \<and> (case score (hd (cands r)) of None \<Rightarrow> True | Some sc \<Rightarrow> sc \<ge> m))"

section \<open>Row resolver: status assignment\<close>

text \<open>
  Modelled from the spec: the Row Resolver runs in the backend, whose sources are not
  part of the frontend code; the preview receives its result in the \<open>status\<close> field.
  Section 4.4 of the specification gives the transition logic: a present (non-blank)
  original Symbol gives FILLED; otherwise a blank or missing Name gives UNCHANGED;
  otherwise an empty candidate list gives NOT_FOUND and a non-empty one AMBIGUOUS.
\<close>

definition blank :: "string option \<Rightarrow> bool" where
  "blank s = (case s of None \<Rightarrow> True | Some x \<Rightarrow> trim x = [])"

definition resolveStatus :: "string option \<Rightarrow> string option \<Rightarrow> Candidate list \<Rightarrow> string" where
  "resolveStatus sy nm cs =
     (if \<not> blank sy then ''FILLED''
      else if blank nm then ''UNCHANGED''
      else if cs = [] then ''NOT_FOUND''
      else ''AMBIGUOUS'')"

section \<open>Example data\<close>

text \<open>The preview row of the README (Apple Inc., no symbol) with a learned alias.\<close>

definition ex_APLE :: Candidate where
  "ex_APLE = \<lparr> symbol = ''APLE'', cname = ''Apple Hospitality REIT'', ctype = None,
               score = Some (jsNum 0.4), source = Some ''POLYGON'' \<rparr>"

definition ex_AAPL :: Candidate where
  "ex_AAPL = \<lparr> symbol = ''AAPL'', cname = ''Apple Inc'', ctype = None,
               score = Some 0.5, source = Some ''FINNHUB'' \<rparr>"

definition ex_raw :: RawRow where
  "ex_raw = \<lparr> raw_index = Some 0, raw_status = ''AMBIGUOUS'',
              raw_candidates = Some [ex_APLE, ex_AAPL\<lparr>score := Some (jsNum 0.35)\<rparr>],
              raw_notes = None,
              raw_input = Some \<lparr> in_Name = Some ''  Apple Inc. '', in_Symbol = None \<rparr>,
              raw_Name = None, raw_Symbol = None \<rparr>"

definition ex_aliases :: "string \<rightharpoonup> string" where
  "ex_aliases = [''apple inc.'' \<mapsto> ''aapl'']"

text \<open>A row whose name normalizes to a name that every object inherits.\<close>

definition ex_raw_inherited :: RawRow where
  "ex_raw_inherited = ex_raw\<lparr> raw_index := Some 1,
       raw_input := Some \<lparr> in_Name = Some ''Constructor'', in_Symbol = None \<rparr> \<rparr>"

text \<open>A resolved preview with overrides for rows 0, 3 and 5, at two different times.\<close>

definition mkCand :: "string \<Rightarrow> real option \<Rightarrow> Candidate" where
  "mkCand sy sc = \<lparr> symbol = sy, cname = [], ctype = None, score = sc, source = Some ''FINNHUB'' \<rparr>"

definition mkRow :: "nat \<Rightarrow> string \<Rightarrow> string \<Rightarrow> string option \<Rightarrow> Candidate list \<Rightarrow> PreviewRow" where
  "mkRow i st nm sy cs =
     \<lparr> index = i, status = st, candidates = Some cs, row_notes = None,
       input = Some \<lparr> in_Name = Some nm, in_Symbol = sy \<rparr>, Name = Some nm, Symbol = sy \<rparr>"

definition ex_rows :: "PreviewRow list" where
  "ex_rows =
     [ mkRow 0 ''AMBIGUOUS'' ''Apple Inc.'' None [mkCand ''AAPL'' (Some 0.93), mkCand ''APLE'' (Some 0.41)],
       mkRow 1
         (resolveStatus (Some ''GOOG'') (Some ''Alphabet Inc.'')
            [mkCand ''GOOGL'' (Some 0.7), mkCand ''GOOG'' (Some 0.6)])
         ''Alphabet Inc.'' (Some ''GOOG'') [mkCand ''GOOGL'' (Some 0.7), mkCand ''GOOG'' (Some 0.6)],
       mkRow 2 ''NOT_FOUND'' ''Unknown Co'' None [],
       mkRow 3 ''AMBIGUOUS'' ''Microsoft'' None [mkCand ''MSFT'' (Some 0.3)],
       mkRow 4 (resolveStatus (Some ''IBM'') (Some ''IBM'') []) ''IBM'' (Some ''IBM'') [],
       mkRow 5 ''AMBIGUOUS'' ''Tesla'' None [mkCand ''TSLA'' (Some 0.5)] ]"

definition ex_state :: AppState where
  "ex_state =
     \<lparr> rows = ex_rows, overrides = [0 \<mapsto> ''AAPL'', 3 \<mapsto> ''MSFT'', 5 \<mapsto> ''TSLA''],
       aliases = [''apple inc.'' \<mapsto> ''AAPL''], statusFilter = ''ALL'', qDebounced = [],
       bulkMinScore = 0.8, pendingChanges = [], commitPreviewOpen = False,
       lastRun = \<lparr> filename = Some ''holdings.csv'', startedAt = Some 100, finishedAt = Some 350,
                   durationMs = Some 250, commitDurationMs = None \<rparr> \<rparr>"

definition ex_state_later :: AppState where
  "ex_state_later =
     ex_state\<lparr> pendingChanges := [], commitPreviewOpen := True, qDebounced := ''apple'',
                lastRun := \<lparr> filename = Some ''holdings.csv'', startedAt = Some 9000,
                             finishedAt = Some 9900, durationMs = Some 900,
                             commitDurationMs = Some 40 \<rparr> \<rparr>"

text \<open>Three visible rows with top scores 0.9, 0.7 and 0.5 under the threshold 0.8; and two
  rows, one whose top candidate has no score and one whose name is blank.\<close>

definition ex_bulk_state :: AppState where
  "ex_bulk_state =
     \<lparr> rows = [ mkRow 0 ''AMBIGUOUS'' ''Apple Inc.'' None [mkCand ''AAPL'' (Some 0.9)],
                mkRow 1 ''AMBIGUOUS'' ''Microsoft'' None [mkCand ''MSFT'' (Some 0.7)],
                mkRow 2 ''FILLED'' ''Tesla'' None [mkCand ''TSLA'' (Some 0.5)] ],
       overrides = Map.empty, aliases = Map.empty, statusFilter = ''ALL'', qDebounced = [],
       bulkMinScore = 0.8, pendingChanges = [], commitPreviewOpen = False,
       lastRun = \<lparr> filename = None, startedAt = None, finishedAt = None,
                   durationMs = None, commitDurationMs = None \<rparr> \<rparr>"

definition ex_noscore_state :: AppState where
  "ex_noscore_state =
     ex_bulk_state\<lparr> rows := [ mkRow 0 ''AMBIGUOUS'' ''Acme Corp'' None [mkCand ''ACME'' None],
                              mkRow 1 ''AMBIGUOUS'' ''  '' None [mkCand ''BETA'' (Some 0.9)] ] \<rparr>"

section \<open>Properties of the risk classifier\<close>



text \<open>
  Claim C9. The classifier is antitone in the score: of two present scores the smaller
  one has a severity at least as high as the larger one, for the severity ranks
  HIGH = 2, MEDIUM = 1, LOW = 0.
\<close>

theorem riskOf_antitone:
  "s1 < s2 \<Longrightarrow> rk (riskOf (Some s1) src1) \<ge> rk (riskOf (Some s2) src2)"
  by (simp add: riskOf_def)

theorem riskOf_antitone_witness:
  "(0.5::real) < 0.9 \<and> rk (riskOf (Some 0.5) None) \<ge> rk (riskOf (Some 0.9) None)
   \<and> rk (riskOf (Some 0.5) None) = 2 \<and> rk (riskOf (Some 0.9) None) = 0"
proof -
  have h: "(0.5::real) < 0.9" by simp
  show ?thesis using h riskOf_antitone [OF h, of None None] by (simp add: riskOf_def)
qed

section \<open>JavaScript numbers: evaluation\<close>

declare scaleUp.simps [simp del] scaleDown.simps [simp del]

lemma scaleUp_step: "0 < x \<Longrightarrow> x < 2 ^ 52 \<Longrightarrow> scaleUp x e = scaleUp (2 * x) (e - 1)"
  by (subst scaleUp.simps) simp

lemma scaleUp_stop: "x \<le> 0 \<or> 2 ^ 52 \<le> x \<Longrightarrow> scaleUp x e = (x, e)"
  by (subst scaleUp.simps) auto

lemma scaleDown_step: "2 ^ 53 \<le> x \<Longrightarrow> scaleDown x e = scaleDown (x / 2) (e + 1)"
  by (subst scaleDown.simps) simp

lemma scaleDown_stop: "x < 2 ^ 53 \<Longrightarrow> scaleDown x e = (x, e)"
  by (subst scaleDown.simps) simp

lemmas js_eval = jsNum_def jsAdd_def roundDouble_def roundHalfEven_def pow2_def Let_def
  scaleUp_step scaleUp_stop scaleDown_step scaleDown_stop

text \<open>
  The rounding on known values of double arithmetic: the literal 0.05; 0.1 + 0.2; ties
  going to the even significand; a power of two and a negative number; and the bonus
  at 0.35, which gives 0.39999999999999997 and not 0.4.
\<close>

lemma jsNum_literal: "jsNum 0.05 = 3602879701896397 / 2 ^ 56"
  by (simp add: js_eval)

lemma jsAdd_tenths: "jsAdd (jsNum 0.1) (jsNum 0.2) = jsNum 0.30000000000000004"
  by (simp add: js_eval)

lemma jsNum_ties: "jsNum (2 ^ 53 + 1) = 2 ^ 53" "jsNum (2 ^ 53 + 3) = 2 ^ 53 + 4"
  by (simp_all add: js_eval)

lemma jsNum_exact: "jsNum 0.5 = 0.5" "jsNum 1 = 1" "jsNum (- 0.35) = - jsNum 0.35"
  by (simp_all add: js_eval)

lemma jsAdd_bonus:
  "jsAdd (jsNum 0.35) (jsNum 0.05) = jsNum 0.39999999999999997"
  "jsNum 0.39999999999999997 < jsNum 0.4"
  by (simp_all add: js_eval)

section \<open>JavaScript numbers: rounding is to the nearest\<close>

lemma pow2_powi: "pow2 e = 2 powi e"
  by (simp add: pow2_def power_int_def inverse_eq_divide power_one_over)

lemma pow2_pos: "0 < pow2 e"
  by (simp add: pow2_powi)

lemma pow2_succ: "pow2 (e + 1) = 2 * pow2 e"
  by (simp add: pow2_powi power_int_add_1')

lemma pow2_pred: "2 * pow2 (e - 1) = pow2 e"
  using pow2_succ [of "e - 1"] by simp

lemma scaleUp_inv:
  "0 < x \<Longrightarrow> scaleUp x e = (y, e') \<Longrightarrow>
     2 ^ 52 \<le> y \<and> y * pow2 e' = x * pow2 e \<and> (x < 2 ^ 53 \<longrightarrow> y < 2 ^ 53)"
proof (induction x e rule: scaleUp.induct)
  case (1 x e)
  show ?case
  proof (cases "x < 2 ^ 52")
    case True
    with "1.prems" have r: "scaleUp (2 * x) (e - 1) = (y, e')" by (simp add: scaleUp_step)
    from True "1.prems" have "2 ^ 52 \<le> y \<and> y * pow2 e' = (2 * x) * pow2 (e - 1)
        \<and> (2 * x < 2 ^ 53 \<longrightarrow> y < 2 ^ 53)"
      by (intro "1.IH" r) simp_all
    moreover have "(2 * x) * pow2 (e - 1) = x * pow2 e"
      using pow2_pred [of e] by (simp add: mult.assoc mult.left_commute)
    ultimately show ?thesis using True by simp
  next
    case False
    with "1.prems" show ?thesis by (simp add: scaleUp_stop)
  qed
qed

lemma scaleDown_inv:
  "2 ^ 52 \<le> x \<Longrightarrow> scaleDown x e = (z, e') \<Longrightarrow>
     2 ^ 52 \<le> z \<and> z < 2 ^ 53 \<and> z * pow2 e' = x * pow2 e"
proof (induction x e rule: scaleDown.induct)
  case (1 x e)
  show ?case
  proof (cases "2 ^ 53 \<le> x")
    case True
    with "1.prems" have r: "scaleDown (x / 2) (e + 1) = (z, e')" by (simp add: scaleDown_step)
    from True have "2 ^ 52 \<le> z \<and> z < 2 ^ 53 \<and> z * pow2 e' = (x / 2) * pow2 (e + 1)"
      by (intro "1.IH" r) simp_all
    then show ?thesis by (simp add: pow2_succ)
  next
    case False
    with "1.prems" show ?thesis by (simp add: scaleDown_stop)
  qed
qed

lemma roundHalfEven_near:
  "\<bar>of_int (roundHalfEven z) - z\<bar> \<le> 1 / 2"
  "\<bar>of_int (roundHalfEven z) - z\<bar> = 1 / 2 \<Longrightarrow> even (roundHalfEven z)"
  by (auto simp: roundHalfEven_def Let_def split: if_splits)

lemma roundHalfEven_range:
  assumes "2 ^ 52 \<le> z" and "z < 2 ^ 53"
  shows "2 ^ 52 \<le> roundHalfEven z \<and> roundHalfEven z \<le> 2 ^ 53"
proof -
  have c: "roundHalfEven z = \<lfloor>z\<rfloor> \<or> roundHalfEven z = \<lfloor>z\<rfloor> + 1"
    by (auto simp: roundHalfEven_def Let_def)
  from assms(1) have l: "2 ^ 52 \<le> \<lfloor>z\<rfloor>" by (simp add: le_floor_iff)
  from assms(2) have u: "\<lfloor>z\<rfloor> < 2 ^ 53" by (simp add: floor_less_iff)
  from c l u show ?thesis by auto
qed

text \<open>
  \<open>roundDouble\<close> rounds to the nearest number with a significand of 53 bits, ties to
  the even significand: a non-zero \<open>x\<close> lies between \<open>2^52 * 2^e\<close> and \<open>2^53 * 2^e\<close> in
  magnitude for the exponent \<open>e\<close> found, where such numbers are \<open>2^e\<close> apart, and the
  result is a multiple \<open>m * 2^e\<close> at distance at most \<open>2^e / 2\<close> from \<open>x\<close>, with \<open>m\<close>
  even when the distance is exactly that.
\<close>

lemma roundDouble_nearest:
  assumes "x \<noteq> 0"
  shows "\<exists>m e. roundDouble x = sgn x * of_int m * pow2 e
           \<and> 2 ^ 52 \<le> m \<and> m \<le> 2 ^ 53
           \<and> 2 ^ 52 * pow2 e \<le> \<bar>x\<bar> \<and> \<bar>x\<bar> < 2 ^ 53 * pow2 e
           \<and> \<bar>roundDouble x - x\<bar> \<le> pow2 e / 2
           \<and> (\<bar>roundDouble x - x\<bar> = pow2 e / 2 \<longrightarrow> even m)"
proof -
  obtain y e0 where up: "scaleUp \<bar>x\<bar> 0 = (y, e0)" by (cases "scaleUp \<bar>x\<bar> 0")
  obtain z e where down: "scaleDown y e0 = (z, e)" by (cases "scaleDown y e0")
  from assms have pos: "0 < \<bar>x\<bar>" by simp
  from scaleUp_inv [OF pos up] have y: "2 ^ 52 \<le> y" "y * pow2 e0 = \<bar>x\<bar>"
    by (simp_all add: pow2_def)
  from scaleDown_inv [OF y(1) down] y(2)
  have z: "2 ^ 52 \<le> z" "z < 2 ^ 53" "z * pow2 e = \<bar>x\<bar>" by simp_all
  let ?m = "roundHalfEven z"
  have r: "roundDouble x = sgn x * of_int ?m * pow2 e"
    using assms up down by (simp add: roundDouble_def)
  have "roundDouble x - x = sgn x * of_int ?m * pow2 e - sgn x * \<bar>x\<bar>"
    by (simp only: r sgn_mult_abs)
  also have "\<dots> = sgn x * of_int ?m * pow2 e - sgn x * (z * pow2 e)"
    by (simp only: z(3))
  also have "\<dots> = sgn x * ((of_int ?m - z) * pow2 e)"
    by (simp add: algebra_simps)
  finally have "roundDouble x - x = sgn x * ((of_int ?m - z) * pow2 e)" .
  then have d: "\<bar>roundDouble x - x\<bar> = \<bar>of_int ?m - z\<bar> * pow2 e"
    using assms pow2_pos [of e] by (simp add: abs_mult abs_sgn_eq)
  have b1: "2 ^ 52 * pow2 e \<le> \<bar>x\<bar>" "\<bar>x\<bar> < 2 ^ 53 * pow2 e"
    using z pow2_pos [of e] by (simp_all flip: z(3))
  have b2: "\<bar>roundDouble x - x\<bar> \<le> pow2 e / 2"
    using roundHalfEven_near(1) [of z] pow2_pos [of e] unfolding d
    by (metis less_eq_real_def mult.commute mult_left_mono times_divide_eq_right mult.right_neutral)
  have b3: "even ?m" if "\<bar>roundDouble x - x\<bar> = pow2 e / 2"
  proof -
    from that d pow2_pos [of e] have "\<bar>of_int ?m - z\<bar> = 1 / 2" by (simp add: field_simps)
    then show ?thesis by (rule roundHalfEven_near(2))
  qed
  from r roundHalfEven_range [OF z(1,2)] b1 b2 b3 show ?thesis by blast
qed

section \<open>Learned aliases\<close>

lemma findIndex_Some:
  "findIndex P xs = Some i \<Longrightarrow> i < length xs \<and> P (xs ! i) \<and> (\<forall>j<i. \<not> P (xs ! j))"
proof (induction xs arbitrary: i)
  case Nil
  then show ?case by simp
next
  case (Cons x xs)
  show ?case
  proof (cases "P x")
    case True
    with Cons.prems show ?thesis by simp
  next
    case False
    with Cons.prems obtain k where k: "findIndex P xs = Some k" "i = Suc k"
      by (auto split: option.splits)
    from Cons.IH [OF k(1)] False k(2) show ?thesis
      by (auto simp: less_Suc_eq_0_disj)
  qed
qed

lemma findIndex_None: "findIndex P xs = None \<longleftrightarrow> (\<forall>x\<in>set xs. \<not> P x)"
  by (induction xs) (auto split: option.splits)

lemma bumped_score:
  "bumped c = c\<lparr>score := map_option (\<lambda>s. min (jsAdd s (jsNum 0.05)) (jsNum 0.999)) (score c)\<rparr>"
  by (cases "score c") (simp_all add: bumped_def)

lemma matchesLearned_bumped [simp]: "matchesLearned l (bumped c) = matchesLearned l c"
  by (simp add: matchesLearned_def bumped_def)

lemma applyLearned_hit:
  assumes "learned \<noteq> []" and "findIndex (matchesLearned learned) cs = Some k"
  shows "applyLearned (Str learned) cs = Inr (bumped (cs ! k) # take k cs @ drop (Suc k) cs, True)"
proof -
  from findIndex_Some [OF assms(2)] have "k < length cs" by simp
  then have "length cs > 0" by auto
  with assms show ?thesis by (simp add: applyLearned_def truthyValue_def)
qed

lemma applyLearned_miss:
  assumes "findIndex (matchesLearned learned) cs = None"
  shows "applyLearned (Str learned) cs = Inr (cs, False)"
  using assms by (simp add: applyLearned_def)

lemma applyLearned_Inl: "applyLearned v cs = Inl err \<longleftrightarrow> v = Inherited \<and> cs \<noteq> []"
  by (cases v; cases err) (auto simp: applyLearned_def truthyValue_def split: option.splits)

lemma applyLearned_Inr_ex:
  "\<not> (v = Inherited \<and> cs \<noteq> []) \<Longrightarrow> \<exists>A f. applyLearned v cs = Inr (A, f)"
  by (cases "applyLearned v cs") (auto simp: applyLearned_Inl)

lemma applyLearned_nonempty: "applyLearned v cs = Inr (A, True) \<Longrightarrow> A \<noteq> []"
  by (cases v) (auto simp: applyLearned_def truthyValue_def split: if_splits option.splits)

lemma applyLearned_Nil: "applyLearned v cs = Inr (A, f) \<Longrightarrow> cs = [] \<Longrightarrow> A = []"
  by (simp add: applyLearned_def)

lemma normalizeRow_eq:
  "normalizeRow al r i =
     (case applyLearned (getAlias al (norm_str (rawNameOf r))) (rawCands r) of
        Inl err \<Rightarrow> Inl err
      | Inr res \<Rightarrow>
          Inr (\<lparr> index = (case raw_index r of None \<Rightarrow> i | Some k \<Rightarrow> k),
                 status = raw_status r,
                 candidates = Some (fst res),
                 row_notes = raw_notes r,
                 input = raw_input r,
                 Name = rawNameOf r,
                 Symbol = (case raw_Symbol r of
                             Some n \<Rightarrow> Some n
                           | None \<Rightarrow> (case raw_input r of None \<Rightarrow> None | Some inp \<Rightarrow> in_Symbol inp)) \<rparr>,
               snd res))"
  by (auto simp: normalizeRow_def Let_def cands_def nameOf_def rawNameOf_def
      split: option.splits sum.splits)

lemma normalizeRow_Inr:
  "normalizeRow al r i = Inr (out, f) \<Longrightarrow>
     applyLearned (getAlias al (norm_str (rawNameOf r))) (rawCands r) = Inr (cands out, f)"
  by (auto simp: normalizeRow_eq cands_def split: sum.splits)

lemma normalizeRow_Inr_ex:
  "applyLearned (getAlias al (norm_str (rawNameOf r))) (rawCands r) = Inr (A, f) \<Longrightarrow>
     \<exists>out. normalizeRow al r i = Inr (out, f) \<and> cands out = A"
  by (simp add: normalizeRow_eq cands_def)

lemma normalizeRow_Inl:
  "normalizeRow al r i = Inl err \<longleftrightarrow>
     getAlias al (norm_str (rawNameOf r)) = Inherited \<and> rawCands r \<noteq> []"
proof -
  have "normalizeRow al r i = Inl err \<longleftrightarrow>
          applyLearned (getAlias al (norm_str (rawNameOf r))) (rawCands r) = Inl err"
    by (simp add: normalizeRow_eq split: sum.splits)
  then show ?thesis by (simp add: applyLearned_Inl)
qed

lemma normalizeFrom_Inr:
  "normalizeFrom al k data = Inr xs \<Longrightarrow>
     length xs = length data \<and> (\<forall>i<length data. normalizeRow al (data ! i) (k + i) = Inr (xs ! i))"
proof (induction data arbitrary: k xs)
  case Nil
  then show ?case by simp
next
  case (Cons r rs)
  from Cons.prems obtain x ys where x: "normalizeRow al r k = Inr x"
    and ys: "normalizeFrom al (Suc k) rs = Inr ys" and xs: "xs = x # ys"
    by (auto split: sum.splits)
  from Cons.IH [OF ys] have len: "length ys = length rs"
    and nth: "\<And>i. i < length rs \<Longrightarrow> normalizeRow al (rs ! i) (Suc k + i) = Inr (ys ! i)"
    by simp_all
  show ?case
  proof (intro conjI allI impI)
    show "length xs = length (r # rs)" using len xs by simp
  next
    fix i assume "i < length (r # rs)"
    then show "normalizeRow al ((r # rs) ! i) (k + i) = Inr (xs ! i)"
      using x xs nth by (cases i) simp_all
  qed
qed

lemma normalizeFrom_Inl:
  "normalizeFrom al k data = Inl err \<longleftrightarrow>
     (\<exists>r\<in>set data. getAlias al (norm_str (rawNameOf r)) = Inherited \<and> rawCands r \<noteq> [])"
proof (induction data arbitrary: k)
  case Nil
  then show ?case by simp
next
  case (Cons r rs)
  show ?case
  proof (cases "normalizeRow al r k")
    case (Inl e)
    then have "e = err" by (cases e; cases err) simp
    with Inl show ?thesis using normalizeRow_Inl [of al r k err] by simp
  next
    case (Inr x)
    then have "\<not> (getAlias al (norm_str (rawNameOf r)) = Inherited \<and> rawCands r \<noteq> [])"
      using normalizeRow_Inl [of al r k err] by simp
    with Inr Cons.IH [of "Suc k"] show ?thesis
      by (auto split: sum.splits)
  qed
qed

lemma normalized_Inr:
  assumes "normalized al data = Inr rs"
  shows "length rs = length data"
    and "i < length data \<Longrightarrow>
           \<exists>f. applyLearned (getAlias al (norm_str (rawNameOf (data ! i)))) (rawCands (data ! i))
                 = Inr (cands (rs ! i), f)"
proof -
  from assms obtain xs where xs: "normalizeFrom al 0 data = Inr xs" and rs: "rs = map fst xs"
    by (auto simp: normalized_def split: sum.splits)
  from normalizeFrom_Inr [OF xs] have len: "length xs = length data"
    and nth: "\<And>i. i < length data \<Longrightarrow> normalizeRow al (data ! i) i = Inr (xs ! i)"
    by simp_all
  show "length rs = length data" using len rs by simp
  assume i: "i < length data"
  from nth [OF i] have "normalizeRow al (data ! i) i = Inr (fst (xs ! i), snd (xs ! i))" by simp
  from normalizeRow_Inr [OF this] i len rs
  show "\<exists>f. applyLearned (getAlias al (norm_str (rawNameOf (data ! i)))) (rawCands (data ! i))
                 = Inr (cands (rs ! i), f)"
    by auto
qed

lemma normalized_Inl:
  "normalized al data = Inl err \<longleftrightarrow>
     (\<exists>r\<in>set data. getAlias al (norm_str (rawNameOf r)) = Inherited \<and> rawCands r \<noteq> [])"
  using normalizeFrom_Inl [of al 0 data err] by (auto simp: normalized_def split: sum.splits)

text \<open>
  Claim C4. For a row whose normalized name has a learned (non-empty) alias the preview
  callback returns a row. When some candidate's symbol equals the alias up to case, the
  first such candidate is taken out of its position, its score \<open>s\<close> becomes
  \<open>Math.min(s + 0.05, 0.999)\<close> in the arithmetic of Numbers (an absent score stays
  absent), it is put at position 0, and the other candidates follow in their original
  order; when no candidate matches, the candidate list is unchanged.
\<close>

theorem alias_application:
  assumes al: "al (norm_str (rawNameOf r)) = Some learned"
      and ne: "learned \<noteq> []"
  shows "\<exists>out flag. normalizeRow al r i = Inr (out, flag)
       \<and> ((\<exists>c\<in>set (rawCands r). toUpperCase (symbol c) = toUpperCase learned) \<longrightarrow>
            (\<exists>k<length (rawCands r).
                toUpperCase (symbol (rawCands r ! k)) = toUpperCase learned
              \<and> (\<forall>j<k. toUpperCase (symbol (rawCands r ! j)) \<noteq> toUpperCase learned)
              \<and> cands out =
                  (rawCands r ! k)\<lparr>score := map_option (\<lambda>s. min (jsAdd s (jsNum 0.05)) (jsNum 0.999))
                                               (score (rawCands r ! k))\<rparr>
                    # take k (rawCands r) @ drop (Suc k) (rawCands r)
              \<and> flag))
       \<and> ((\<forall>c\<in>set (rawCands r). toUpperCase (symbol c) \<noteq> toUpperCase learned) \<longrightarrow>
            cands out = rawCands r \<and> \<not> flag)"
proof -
  let ?cs = "rawCands r"
  let ?m = "\<lambda>c. toUpperCase (symbol c) = toUpperCase learned"
  from al have g: "getAlias al (norm_str (rawNameOf r)) = Str learned"
    by (simp add: getAlias_def)
  show ?thesis
  proof (cases "findIndex (matchesLearned learned) ?cs")
    case None
    then have no: "\<forall>c\<in>set ?cs. \<not> ?m c" by (simp add: findIndex_None matchesLearned_def)
    from applyLearned_miss [OF None] g
    have "applyLearned (getAlias al (norm_str (rawNameOf r))) ?cs = Inr (?cs, False)" by simp
    from normalizeRow_Inr_ex [OF this] obtain out
      where "normalizeRow al r i = Inr (out, False)" "cands out = ?cs" by blast
    with no show ?thesis by blast
  next
    case (Some k)
    from findIndex_Some [OF Some]
    have k: "k < length ?cs" "?m (?cs ! k)" "\<forall>j<k. \<not> ?m (?cs ! j)"
      by (simp_all add: matchesLearned_def)
    from applyLearned_hit [OF ne Some] g
    have "applyLearned (getAlias al (norm_str (rawNameOf r))) ?cs
            = Inr (bumped (?cs ! k) # take k ?cs @ drop (Suc k) ?cs, True)"
      by simp
    from normalizeRow_Inr_ex [OF this] obtain out
      where out: "normalizeRow al r i = Inr (out, True)"
        "cands out = bumped (?cs ! k) # take k ?cs @ drop (Suc k) ?cs"
      by blast
    from k(1,2) have yes: "\<exists>c\<in>set ?cs. ?m c" by (meson nth_mem)
    have "\<exists>k<length ?cs. ?m (?cs ! k) \<and> (\<forall>j<k. \<not> ?m (?cs ! j))
            \<and> cands out =
                (?cs ! k)\<lparr>score := map_option (\<lambda>s. min (jsAdd s (jsNum 0.05)) (jsNum 0.999))
                                       (score (?cs ! k))\<rparr>
                  # take k ?cs @ drop (Suc k) ?cs
            \<and> True"
      using k out(2) by (intro exI [of _ k]) (simp add: bumped_score)
    with out(1) yes show ?thesis by blast
  qed
qed

lemma ex_symbols:
  "symbol ex_APLE = ''APLE''" "symbol ex_AAPL = ''AAPL''" "score ex_AAPL = Some 0.5"
  by (simp_all add: ex_APLE_def ex_AAPL_def)

lemma ex_upper:
  "toUpperCase ''aapl'' = ''AAPL''" "toUpperCase ''AAPL'' = ''AAPL''"
  "toUpperCase ''APLE'' = ''APLE''"
  by code_simp+

lemma ex_raw_fields:
  "rawNameOf ex_raw = Some ''  Apple Inc. ''"
  "rawCands ex_raw = [ex_APLE, ex_AAPL\<lparr>score := Some (jsNum 0.35)\<rparr>]"
  "rawNameOf ex_raw_inherited = Some ''Constructor''"
  "rawCands ex_raw_inherited = [ex_APLE, ex_AAPL\<lparr>score := Some (jsNum 0.35)\<rparr>]"
  by (simp_all add: ex_raw_def ex_raw_inherited_def rawNameOf_def rawCands_def)

lemma ex_names:
  "norm_str (Some ''  Apple Inc. '') = ''apple inc.''"
  "norm_str (Some ''Constructor'') = ''constructor''"
  by code_simp+

lemma ex_bumps:
  "bumped ex_AAPL = ex_AAPL\<lparr>score := Some (jsNum 0.55)\<rparr>"
  "bumped (ex_AAPL\<lparr>score := Some (jsNum 0.55)\<rparr>)
     = ex_AAPL\<lparr>score := Some (jsNum 0.6000000000000001)\<rparr>"
  "bumped (ex_AAPL\<lparr>score := Some (jsNum 0.35)\<rparr>)
     = ex_AAPL\<lparr>score := Some (jsNum 0.39999999999999997)\<rparr>"
  by (simp_all add: bumped_def ex_symbols js_eval)

lemma ex_scores:
  "jsNum 0.55 < jsNum 0.6000000000000001"
  "min (jsAdd (jsNum 0.55) (jsNum 0.05)) (jsNum 0.999) \<noteq> jsNum 0.55"
  "min (jsAdd (jsNum 0.999) (jsNum 0.05)) (jsNum 0.999) = jsNum 0.999"
  by (simp_all add: js_eval)

lemma ex_apply_bumped:
  "symbol x = ''AAPL'' \<Longrightarrow>
     applyLearned (Str ''AAPL'') [ex_APLE, x] = Inr ([bumped x, ex_APLE], True)"
  "symbol x = ''AAPL'' \<Longrightarrow>
     applyLearned (Str ''AAPL'') [x, ex_APLE] = Inr ([bumped x, ex_APLE], True)"
  "symbol x = ''AAPL'' \<Longrightarrow>
     applyLearned (Str ''aapl'') [ex_APLE, x] = Inr ([bumped x, ex_APLE], True)"
  by (simp_all add: applyLearned_def truthyValue_def matchesLearned_def ex_symbols ex_upper)

lemma ex_apply:
  "applyLearned (Str ''AAPL'') [ex_APLE, ex_AAPL]
     = Inr ([ex_AAPL\<lparr>score := Some (jsNum 0.55)\<rparr>, ex_APLE], True)"
  "applyLearned (Str ''AAPL'') [ex_AAPL\<lparr>score := Some (jsNum 0.55)\<rparr>, ex_APLE]
     = Inr ([ex_AAPL\<lparr>score := Some (jsNum 0.6000000000000001)\<rparr>, ex_APLE], True)"
  "applyLearned (Str ''aapl'') [ex_APLE, ex_AAPL\<lparr>score := Some (jsNum 0.35)\<rparr>]
     = Inr ([ex_AAPL\<lparr>score := Some (jsNum 0.39999999999999997)\<rparr>, ex_APLE], True)"
proof -
  have s: "symbol (ex_AAPL\<lparr>score := y\<rparr>) = ''AAPL''" for y by (simp add: ex_symbols)
  show "applyLearned (Str ''AAPL'') [ex_APLE, ex_AAPL]
     = Inr ([ex_AAPL\<lparr>score := Some (jsNum 0.55)\<rparr>, ex_APLE], True)"
    using ex_apply_bumped(1) [OF ex_symbols(2)] by (simp only: ex_bumps)
  show "applyLearned (Str ''AAPL'') [ex_AAPL\<lparr>score := Some (jsNum 0.55)\<rparr>, ex_APLE]
     = Inr ([ex_AAPL\<lparr>score := Some (jsNum 0.6000000000000001)\<rparr>, ex_APLE], True)"
    using ex_apply_bumped(2) [OF s] by (simp only: ex_bumps)
  show "applyLearned (Str ''aapl'') [ex_APLE, ex_AAPL\<lparr>score := Some (jsNum 0.35)\<rparr>]
     = Inr ([ex_AAPL\<lparr>score := Some (jsNum 0.39999999999999997)\<rparr>, ex_APLE], True)"
    using ex_apply_bumped(3) [OF s] by (simp only: ex_bumps)
qed

theorem alias_application_witness:
  "ex_aliases (norm_str (rawNameOf ex_raw)) = Some ''aapl'' \<and> ''aapl'' \<noteq> []
   \<and> (\<exists>c\<in>set (rawCands ex_raw). toUpperCase (symbol c) = toUpperCase ''aapl'')
   \<and> (\<exists>out. normalizeRow ex_aliases ex_raw 0 = Inr (out, True)
          \<and> cands out = [ex_AAPL\<lparr>score := Some (jsNum 0.39999999999999997)\<rparr>, ex_APLE])
   \<and> jsNum 0.39999999999999997 < jsNum 0.4"
proof -
  have h1: "ex_aliases (norm_str (rawNameOf ex_raw)) = Some ''aapl''"
    by (simp add: ex_raw_fields ex_names ex_aliases_def)
  have h2: "''aapl'' \<noteq> []" by simp
  have h3: "\<exists>c\<in>set (rawCands ex_raw). toUpperCase (symbol c) = toUpperCase ''aapl''"
    by (simp add: ex_raw_fields ex_symbols ex_upper)
  from alias_application [where al = ex_aliases and r = ex_raw and i = 0, OF h1 h2]
  obtain out flag where o': "normalizeRow ex_aliases ex_raw 0 = Inr (out, flag)"
    and m: "(\<exists>c\<in>set (rawCands ex_raw). toUpperCase (symbol c) = toUpperCase ''aapl'') \<longrightarrow>
            (\<exists>k<length (rawCands ex_raw).
                toUpperCase (symbol (rawCands ex_raw ! k)) = toUpperCase ''aapl''
              \<and> (\<forall>j<k. toUpperCase (symbol (rawCands ex_raw ! j)) \<noteq> toUpperCase ''aapl'')
              \<and> cands out =
                  (rawCands ex_raw ! k)\<lparr>score := map_option (\<lambda>s. min (jsAdd s (jsNum 0.05)) (jsNum 0.999))
                                               (score (rawCands ex_raw ! k))\<rparr>
                    # take k (rawCands ex_raw) @ drop (Suc k) (rawCands ex_raw)
              \<and> flag)"
    by (elim exE conjE)
  from m h3 have flag by blast
  with o' have o: "normalizeRow ex_aliases ex_raw 0 = Inr (out, True)" by simp
  have g: "getAlias ex_aliases (norm_str (rawNameOf ex_raw)) = Str ''aapl''"
    using h1 by (simp add: getAlias_def)
  have "applyLearned (getAlias ex_aliases (norm_str (rawNameOf ex_raw))) (rawCands ex_raw)
          = Inr ([ex_AAPL\<lparr>score := Some (jsNum 0.39999999999999997)\<rparr>, ex_APLE], True)"
    by (simp only: g ex_raw_fields(2) ex_apply(3))
  with normalizeRow_Inr [OF o]
  have "cands out = [ex_AAPL\<lparr>score := Some (jsNum 0.39999999999999997)\<rparr>, ex_APLE]" by simp
  with o h1 h2 h3 jsAdd_bonus(2) show ?thesis by blast
qed

lemma applyLearned_twice:
  assumes 1: "applyLearned v cs = Inr (A1, f1)" and 2: "applyLearned v A1 = Inr (A2, f2)"
  shows "A2 = (if f1 then bumped (hd A1) # tl A1 else A1)"
proof (cases "truthyValue v \<and> length cs > 0")
  case False
  with 1 have "A1 = cs" "\<not> f1" by (auto simp: applyLearned_def)
  with 1 2 show ?thesis by simp
next
  case True
  with 1 obtain learned where l: "v = Str learned" "learned \<noteq> []"
    by (cases v) (auto simp: applyLearned_def truthyValue_def)
  show ?thesis
  proof (cases "findIndex (matchesLearned learned) cs")
    case None
    from applyLearned_miss [OF None] 1 l have "A1 = cs" "\<not> f1" by simp_all
    with 1 2 show ?thesis by simp
  next
    case (Some k)
    from findIndex_Some [OF Some] have m: "matchesLearned learned (cs ! k)" by simp
    from applyLearned_hit [OF l(2) Some] 1 l
    have A1: "A1 = bumped (cs ! k) # take k cs @ drop (Suc k) cs" "f1" by simp_all
    have "findIndex (matchesLearned learned) A1 = Some 0" using m A1 by simp
    from applyLearned_hit [OF l(2) this] 2 l have "A2 = bumped (A1 ! 0) # take 0 A1 @ drop (Suc 0) A1"
      by simp
    with A1 show ?thesis by simp
  qed
qed

lemma score_update_fixed: "c\<lparr>score := x\<rparr> = c \<longleftrightarrow> x = score c"
proof
  assume "c\<lparr>score := x\<rparr> = c"
  then have "score (c\<lparr>score := x\<rparr>) = score c" by simp
  then show "x = score c" by simp
next
  assume "x = score c"
  then show "c\<lparr>score := x\<rparr> = c" by simp
qed

lemma bumped_fixed:
  "bumped c = c \<longleftrightarrow>
     score c = None \<or> (\<exists>s. score c = Some s \<and> min (jsAdd s (jsNum 0.05)) (jsNum 0.999) = s)"
  by (cases "score c") (simp_all add: bumped_def score_update_fixed)

text \<open>
  Claim C8, as the code has it. Where the alias operation returns, a second application
  keeps the order of the first (so the same top candidate) and adds the bonus once more
  to the top candidate: the list is unchanged by the second application only if no alias
  matched, or the top score is absent, or the bonus leaves that score as it is (as at
  the cap 0.999). The operation throws, each time, on a value inherited from
  \<open>Object.prototype\<close> with a non-empty candidate list, and returns otherwise. A preview
  that is produced has applied the operation once to each row's candidates; the preview
  fails exactly when a row with candidates has such an inherited value for its name.
\<close>

theorem alias_twice:
  "(applyLearned v cs = Inr (A1, f1) \<and> applyLearned v A1 = Inr (A2, f2) \<longrightarrow>
       A2 = (if f1
             then (hd A1)\<lparr>score := map_option (\<lambda>s. min (jsAdd s (jsNum 0.05)) (jsNum 0.999))
                                      (score (hd A1))\<rparr> # tl A1
             else A1)
     \<and> map symbol A2 = map symbol A1
     \<and> (A2 = A1 \<longleftrightarrow>
          \<not> f1 \<or> score (hd A1) = None
          \<or> (\<exists>s. score (hd A1) = Some s \<and> min (jsAdd s (jsNum 0.05)) (jsNum 0.999) = s)))
   \<and> (v = Inherited \<and> cs \<noteq> [] \<longrightarrow> applyLearned v cs = Inl TypeError)
   \<and> (\<not> (v = Inherited \<and> cs \<noteq> []) \<longrightarrow>
        (\<exists>B1 g1 B2 g2. applyLearned v cs = Inr (B1, g1) \<and> applyLearned v B1 = Inr (B2, g2)))
   \<and> (normalized al data = Inr rs \<longrightarrow>
        length rs = length data
        \<and> (\<forall>i<length data.
              \<exists>f. applyLearned (getAlias al (norm_str (rawNameOf (data ! i)))) (rawCands (data ! i))
                    = Inr (cands (rs ! i), f)))
   \<and> (normalized al data = Inl TypeError \<longleftrightarrow>
        (\<exists>r\<in>set data. getAlias al (norm_str (rawNameOf r)) = Inherited \<and> rawCands r \<noteq> []))"
proof -
  have twice: "A2 = (if f1
             then (hd A1)\<lparr>score := map_option (\<lambda>s. min (jsAdd s (jsNum 0.05)) (jsNum 0.999))
                                      (score (hd A1))\<rparr> # tl A1
             else A1)
     \<and> map symbol A2 = map symbol A1
     \<and> (A2 = A1 \<longleftrightarrow>
          \<not> f1 \<or> score (hd A1) = None
          \<or> (\<exists>s. score (hd A1) = Some s \<and> min (jsAdd s (jsNum 0.05)) (jsNum 0.999) = s))"
    if a: "applyLearned v cs = Inr (A1, f1)" and b: "applyLearned v A1 = Inr (A2, f2)"
  proof (cases f1)
    case False
    with applyLearned_twice [OF a b] show ?thesis by simp
  next
    case True
    with a have ne: "A1 \<noteq> []" by (simp add: applyLearned_nonempty)
    from applyLearned_twice [OF a b] True have A2: "A2 = bumped (hd A1) # tl A1" by simp
    have c1: "A2 = (hd A1)\<lparr>score := map_option (\<lambda>s. min (jsAdd s (jsNum 0.05)) (jsNum 0.999))
                                      (score (hd A1))\<rparr> # tl A1"
      unfolding A2 by (simp only: bumped_score)
    from ne have c2: "map symbol A2 = map symbol A1"
      unfolding A2 by (cases A1) (simp_all add: bumped_def)
    from ne have "bumped (hd A1) # tl A1 = A1 \<longleftrightarrow> bumped (hd A1) = hd A1"
      by (cases A1) simp_all
    then have c3: "A2 = A1 \<longleftrightarrow>
          score (hd A1) = None
          \<or> (\<exists>s. score (hd A1) = Some s \<and> min (jsAdd s (jsNum 0.05)) (jsNum 0.999) = s)"
      unfolding A2 by (simp only: bumped_fixed)
    from True c1 c2 c3 show ?thesis by (simp only: if_True simp_thms)
  qed
  have inh: "applyLearned v cs = Inl TypeError" if "v = Inherited \<and> cs \<noteq> []"
    using that by (simp add: applyLearned_Inl)
  have ret: "\<exists>B1 g1 B2 g2. applyLearned v cs = Inr (B1, g1) \<and> applyLearned v B1 = Inr (B2, g2)"
    if n: "\<not> (v = Inherited \<and> cs \<noteq> [])"
  proof -
    from applyLearned_Inr_ex [OF n] obtain B1 g1 where 1: "applyLearned v cs = Inr (B1, g1)"
      by blast
    have "\<not> (v = Inherited \<and> B1 \<noteq> [])"
      using n applyLearned_Nil [OF 1] by blast
    from applyLearned_Inr_ex [OF this] 1 show ?thesis by blast
  qed
  have once: "length rs = length data
        \<and> (\<forall>i<length data.
              \<exists>f. applyLearned (getAlias al (norm_str (rawNameOf (data ! i)))) (rawCands (data ! i))
                    = Inr (cands (rs ! i), f))"
    if "normalized al data = Inr rs"
    using normalized_Inr [OF that] by blast
  show ?thesis
  proof (intro conjI)
    show "normalized al data = Inl TypeError \<longleftrightarrow>
        (\<exists>r\<in>set data. getAlias al (norm_str (rawNameOf r)) = Inherited \<and> rawCands r \<noteq> [])"
      by (rule normalized_Inl)
  qed (use twice inh ret once in blast)+
qed

text \<open>
  Claim C8 as stated fails: with a score of 0.5 the first application gives 0.55 and the
  second 0.6000000000000001.
\<close>

theorem alias_twice_counterexample:
  "applyLearned (Str ''AAPL'') [ex_APLE, ex_AAPL]
     = Inr ([ex_AAPL\<lparr>score := Some (jsNum 0.55)\<rparr>, ex_APLE], True)
   \<and> applyLearned (Str ''AAPL'') [ex_AAPL\<lparr>score := Some (jsNum 0.55)\<rparr>, ex_APLE]
     = Inr ([ex_AAPL\<lparr>score := Some (jsNum 0.6000000000000001)\<rparr>, ex_APLE], True)
   \<and> jsNum 0.55 < jsNum 0.6000000000000001"
  by (intro conjI) (rule ex_apply(1), rule ex_apply(2), rule ex_scores(1))

theorem alias_twice_witness:
  "applyLearned (Str ''AAPL'') [ex_APLE, ex_AAPL]
     = Inr ([ex_AAPL\<lparr>score := Some (jsNum 0.55)\<rparr>, ex_APLE], True)
   \<and> applyLearned (Str ''AAPL'') [ex_AAPL\<lparr>score := Some (jsNum 0.55)\<rparr>, ex_APLE]
     = Inr ([ex_AAPL\<lparr>score := Some (jsNum 0.6000000000000001)\<rparr>, ex_APLE], True)
   \<and> [ex_AAPL\<lparr>score := Some (jsNum 0.6000000000000001)\<rparr>, ex_APLE]
       \<noteq> [ex_AAPL\<lparr>score := Some (jsNum 0.55)\<rparr>, ex_APLE]
   \<and> min (jsAdd (jsNum 0.999) (jsNum 0.05)) (jsNum 0.999) = jsNum 0.999
   \<and> applyLearned Inherited [ex_APLE] = Inl TypeError
   \<and> normalized ex_aliases [ex_raw, ex_raw_inherited] = Inl TypeError
   \<and> (\<exists>rs. normalized ex_aliases [ex_raw] = Inr rs \<and> length rs = 1
          \<and> cands (rs ! 0) = [ex_AAPL\<lparr>score := Some (jsNum 0.39999999999999997)\<rparr>, ex_APLE])"
proof -
  let ?A1 = "[ex_AAPL\<lparr>score := Some (jsNum 0.55)\<rparr>, ex_APLE]"
  let ?A2 = "[ex_AAPL\<lparr>score := Some (jsNum 0.6000000000000001)\<rparr>, ex_APLE]"
  note a = ex_apply(1) and b = ex_apply(2)
  have sc: "score (hd ?A1) = Some (jsNum 0.55)" by simp
  from alias_twice [of "Str ''AAPL''" "[ex_APLE, ex_AAPL]" ?A1 True ?A2 True] a b
  have "?A2 = ?A1 \<longleftrightarrow>
          \<not> True \<or> score (hd ?A1) = None
          \<or> (\<exists>s. score (hd ?A1) = Some s \<and> min (jsAdd s (jsNum 0.05)) (jsNum 0.999) = s)"
    by blast
  with sc ex_scores(2) have ne: "?A2 \<noteq> ?A1" by auto
  have g: "getAlias ex_aliases (norm_str (rawNameOf ex_raw)) = Str ''aapl''"
    "getAlias ex_aliases (norm_str (rawNameOf ex_raw_inherited)) = Inherited"
    by (simp_all add: getAlias_def ex_raw_fields ex_names ex_aliases_def)
  have c: "rawCands ex_raw_inherited \<noteq> []" "[ex_APLE] \<noteq> []" by (simp_all add: ex_raw_fields)
  have inh: "applyLearned Inherited [ex_APLE] = Inl TypeError"
    using alias_twice [of Inherited "[ex_APLE]"] c(2) by blast
  have "\<exists>r\<in>set [ex_raw, ex_raw_inherited].
          getAlias ex_aliases (norm_str (rawNameOf r)) = Inherited \<and> rawCands r \<noteq> []"
    using g(2) c(1) by simp
  with alias_twice [where al = ex_aliases and data = "[ex_raw, ex_raw_inherited]"]
  have fail: "normalized ex_aliases [ex_raw, ex_raw_inherited] = Inl TypeError" by blast
  have "\<not> (\<exists>r\<in>set [ex_raw]. getAlias ex_aliases (norm_str (rawNameOf r)) = Inherited \<and> rawCands r \<noteq> [])"
    using g(1) by simp
  with alias_twice [where al = ex_aliases and data = "[ex_raw]"]
  have "normalized ex_aliases [ex_raw] \<noteq> Inl TypeError" by blast
  then obtain rs where rs: "normalized ex_aliases [ex_raw] = Inr rs"
    by (cases "normalized ex_aliases [ex_raw]") (auto intro: js_error.exhaust)
  from alias_twice [where al = ex_aliases and data = "[ex_raw]" and rs = rs] rs
  have len: "length rs = length [ex_raw]"
    and ex: "\<forall>i<length [ex_raw].
           \<exists>f. applyLearned (getAlias ex_aliases (norm_str (rawNameOf ([ex_raw] ! i)))) (rawCands ([ex_raw] ! i))
                 = Inr (cands (rs ! i), f)"
    by blast+
  from ex have "\<exists>f. applyLearned (getAlias ex_aliases (norm_str (rawNameOf ex_raw))) (rawCands ex_raw)
                 = Inr (cands (rs ! 0), f)"
    by simp
  then have "cands (rs ! 0) = [ex_AAPL\<lparr>score := Some (jsNum 0.39999999999999997)\<rparr>, ex_APLE]"
    by (simp only: g(1) ex_raw_fields(2) ex_apply(3) sum.inject prod.inject)
      (erule exE, erule conjE, erule sym)
  with len rs a b ne ex_scores(3) inh fail show ?thesis by auto
qed

section \<open>Commit preview\<close>

lemma truthy_Some [simp]: "truthy (Some x) \<longleftrightarrow> x \<noteq> []"
  by (simp add: truthy_def)

lemma truthy_None [simp]: "\<not> truthy None"
  by (simp add: truthy_def)

lemma pendingChangeOf_override:
  assumes "ov (index r) = Some to" and "to \<noteq> []"
  shows "\<exists>c. pendingChangeOf ov r = Some c \<and> pc_index c = index r \<and> toSymbol c = to"
  using assms by (simp add: pendingChangeOf_def Let_def orEmpty_def)

lemma pendingChangeOf_filled:
  assumes "\<not> truthy (ov (index r))" and "status r = ''FILLED''"
  shows "pendingChangeOf ov r =
           (case cands r of
              [] \<Rightarrow> None
            | c # _ \<Rightarrow>
                if symbol c = [] then None
                else Some \<lparr> pc_index = index r, pc_name = orEmpty (nameOf r),
                            fromSymbol = orEmpty (symbolOf r), toSymbol = symbol c,
                            pc_score = score c, pc_source = source c,
                            risk = riskOf (score c) (source c) \<rparr>)"
  using assms
  by (cases "cands r") (simp_all add: pendingChangeOf_def top_of_def Let_def orEmpty_def)

lemma pendingChangeOf_skip:
  assumes "\<not> truthy (ov (index r))" and "status r \<noteq> ''FILLED''"
  shows "pendingChangeOf ov r = None"
  using assms by (simp add: pendingChangeOf_def)

lemma collectChanges_map_filter:
  "collectChanges ov rs = List.map_filter (pendingChangeOf ov) rs"
  by (induction rs) (simp_all add: List.map_filter_simps split: option.splits)

lemma mset_insertBy: "mset (insertBy cmp x ys) = add_mset x (mset ys)"
  by (induction ys) simp_all

lemma mset_sortBy: "mset (sortBy cmp xs) = mset xs"
  by (induction xs) (simp_all add: mset_insertBy)

lemma compareChanges_le: "compareChanges a b \<le> 0 \<longleftrightarrow> changeKey a \<le> changeKey b"
  by (auto simp: compareChanges_def changeKey_def Let_def)

lemma insertBy_insort: "insertBy compareChanges x ys = insort_key changeKey x ys"
  by (induction ys) (simp_all add: compareChanges_le)

lemma sortBy_sort_key: "sortBy compareChanges xs = sort_key changeKey xs"
  by (induction xs) (simp_all add: insertBy_insort)

lemma compareChanges_eq: "compareChanges a b = 0 \<longleftrightarrow> changeKey a = changeKey b"
  by (auto simp: compareChanges_def changeKey_def Let_def)

text \<open>
  The order is fixed by the comparator alone: every list that holds the same entries, is
  sorted for the comparator and keeps entries that compare equal in their original
  order is the list computed here, so any stable sort gives this result.
\<close>

lemma sortBy_unique:
  assumes "mset ys = mset xs"
    and "\<And>k. k \<in> set ys \<Longrightarrow>
           filter (\<lambda>x. compareChanges k x = 0) ys = filter (\<lambda>x. compareChanges k x = 0) xs"
    and "sorted_wrt (\<lambda>a b. compareChanges a b \<le> 0) ys"
  shows "sortBy compareChanges xs = ys"
  unfolding sortBy_sort_key
proof (rule properties_for_sort_key)
  show "mset ys = mset xs" by (rule assms(1))
  show "filter (\<lambda>x. changeKey k = changeKey x) ys = filter (\<lambda>x. changeKey k = changeKey x) xs"
    if "k \<in> set ys" for k
    using assms(2) [OF that] by (simp add: compareChanges_eq)
  from assms(3) show "sorted (map changeKey ys)"
    by (simp add: sorted_map compareChanges_le)
qed

lemma sortBy_stable:
  "filter (\<lambda>x. compareChanges k x = 0) (sortBy compareChanges xs) = filter (\<lambda>x. compareChanges k x = 0) xs"
proof -
  have "filter (\<lambda>x. changeKey x = changeKey k) (sort_key changeKey xs) = filter (\<lambda>x. changeKey x = changeKey k) xs"
    by (rule sort_key_stable)
  moreover have "(\<lambda>x. compareChanges k x = 0) = (\<lambda>x. changeKey x = changeKey k)"
    by (auto simp: compareChanges_eq)
  ultimately show ?thesis by (simp add: sortBy_sort_key)
qed

lemma sorted_sortBy: "sorted_wrt (\<lambda>a b. compareChanges a b \<le> 0) (sortBy compareChanges xs)"
proof -
  have "sorted (map changeKey (sort_key changeKey xs))" by (rule sorted_sort_key)
  then show ?thesis by (simp add: sortBy_sort_key sorted_map compareChanges_le)
qed

lemma compareChanges_order:
  "compareChanges a b \<le> 0 \<longleftrightarrow>
     rk (risk a) > rk (risk b) \<or> (risk a = risk b \<and> scoreOr a \<ge> scoreOr b)"
  by (cases "risk a"; cases "risk b") (simp_all add: compareChanges_def Let_def)

lemma pendingChanges_open:
  "rows s \<noteq> [] \<Longrightarrow>
     pendingChanges (openCommitPreview s) = sortBy compareChanges (collectChanges (overrides s) (rows s))"
  by (simp add: openCommitPreview_def)

text \<open>
  Claim C1. The change-set holds exactly the entries of the rows, one for each row that
  yields one. For a row, an existing (non-empty) override is the committed symbol,
  whatever its score; without an override a FILLED row commits the symbol of its top
  candidate, the first of its candidate list (and yields no entry when the list is
  empty); without an override a row of any other status yields no entry.
\<close>

theorem commit_precedence:
  "(rows s \<noteq> [] \<longrightarrow>
      mset (pendingChanges (openCommitPreview s)) =
        mset (List.map_filter (pendingChangeOf (overrides s)) (rows s)))
   \<and> (overrides s (index r) = Some to \<and> to \<noteq> [] \<longrightarrow>
        (\<exists>c. pendingChangeOf (overrides s) r = Some c \<and> pc_index c = index r \<and> toSymbol c = to))
   \<and> (\<not> truthy (overrides s (index r)) \<and> status r = ''FILLED'' \<and> cands r = tc # rest
        \<and> symbol tc \<noteq> [] \<longrightarrow>
        (\<exists>c. pendingChangeOf (overrides s) r = Some c \<and> pc_index c = index r
             \<and> toSymbol c = symbol tc))
   \<and> (\<not> truthy (overrides s (index r)) \<and> status r = ''FILLED'' \<and> cands r = [] \<longrightarrow>
        pendingChangeOf (overrides s) r = None)
   \<and> (\<not> truthy (overrides s (index r)) \<and> status r \<noteq> ''FILLED'' \<longrightarrow>
        pendingChangeOf (overrides s) r = None)"
proof -
  have 1: "mset (pendingChanges (openCommitPreview s)) =
        mset (List.map_filter (pendingChangeOf (overrides s)) (rows s))" if "rows s \<noteq> []"
    using that by (simp add: pendingChanges_open mset_sortBy collectChanges_map_filter)
  have 2: "\<exists>c. pendingChangeOf (overrides s) r = Some c \<and> pc_index c = index r
             \<and> toSymbol c = symbol tc"
    if "\<not> truthy (overrides s (index r))" "status r = ''FILLED''" "cands r = tc # rest"
      "symbol tc \<noteq> []"
    using that by (simp add: pendingChangeOf_filled)
  have 3: "pendingChangeOf (overrides s) r = None"
    if "\<not> truthy (overrides s (index r))" "status r = ''FILLED''" "cands r = []"
    using that by (simp add: pendingChangeOf_filled)
  from 1 2 3 pendingChangeOf_override [of "overrides s" r to] pendingChangeOf_skip [of "overrides s" r]
  show ?thesis by blast
qed

theorem commit_precedence_witness:
  "rows ex_state \<noteq> []
   \<and> overrides ex_state (index (ex_rows ! 0)) = Some ''AAPL''
   \<and> (\<exists>c. pendingChangeOf (overrides ex_state) (ex_rows ! 0) = Some c \<and> toSymbol c = ''AAPL'')
   \<and> \<not> truthy (overrides ex_state (index (ex_rows ! 1))) \<and> status (ex_rows ! 1) = ''FILLED''
   \<and> cands (ex_rows ! 1) = mkCand ''GOOGL'' (Some 0.7) # [mkCand ''GOOG'' (Some 0.6)]
   \<and> (\<exists>c. pendingChangeOf (overrides ex_state) (ex_rows ! 1) = Some c \<and> toSymbol c = ''GOOGL'')
   \<and> \<not> truthy (overrides ex_state (index (ex_rows ! 2))) \<and> status (ex_rows ! 2) = ''NOT_FOUND''
   \<and> pendingChangeOf (overrides ex_state) (ex_rows ! 2) = None
   \<and> \<not> truthy (overrides ex_state (index (ex_rows ! 4))) \<and> status (ex_rows ! 4) = ''FILLED''
   \<and> cands (ex_rows ! 4) = [] \<and> pendingChangeOf (overrides ex_state) (ex_rows ! 4) = None
   \<and> mset (pendingChanges (openCommitPreview ex_state)) =
        mset (List.map_filter (pendingChangeOf (overrides ex_state)) (rows ex_state))"
proof -
  have r: "rows ex_state \<noteq> []" by code_simp
  have a: "overrides ex_state (index (ex_rows ! 0)) = Some ''AAPL'' \<and> ''AAPL'' \<noteq> []"
    by code_simp
  have b: "\<not> truthy (overrides ex_state (index (ex_rows ! 1))) \<and> status (ex_rows ! 1) = ''FILLED''
        \<and> cands (ex_rows ! 1) = mkCand ''GOOGL'' (Some 0.7) # [mkCand ''GOOG'' (Some 0.6)]
        \<and> symbol (mkCand ''GOOGL'' (Some 0.7)) \<noteq> []"
    by code_simp
  have b': "symbol (mkCand ''GOOGL'' (Some 0.7)) = ''GOOGL''" by (simp add: mkCand_def)
  have c: "\<not> truthy (overrides ex_state (index (ex_rows ! 2))) \<and> status (ex_rows ! 2) \<noteq> ''FILLED''
        \<and> status (ex_rows ! 2) = ''NOT_FOUND''"
    by code_simp
  have d: "\<not> truthy (overrides ex_state (index (ex_rows ! 4))) \<and> status (ex_rows ! 4) = ''FILLED''
        \<and> cands (ex_rows ! 4) = []"
    by code_simp
  have A: "\<exists>c. pendingChangeOf (overrides ex_state) (ex_rows ! 0) = Some c \<and> toSymbol c = ''AAPL''"
    using commit_precedence [of ex_state "ex_rows ! 0" "''AAPL''"] a by blast
  have B: "\<exists>c. pendingChangeOf (overrides ex_state) (ex_rows ! 1) = Some c \<and> toSymbol c = ''GOOGL''"
    using commit_precedence [of ex_state "ex_rows ! 1" _ "mkCand ''GOOGL'' (Some 0.7)"
        "[mkCand ''GOOG'' (Some 0.6)]"] b b' by auto
  have C: "pendingChangeOf (overrides ex_state) (ex_rows ! 2) = None"
    using commit_precedence [of ex_state "ex_rows ! 2"] c by blast
  have D: "mset (pendingChanges (openCommitPreview ex_state)) =
        mset (List.map_filter (pendingChangeOf (overrides ex_state)) (rows ex_state))"
    using commit_precedence [of ex_state] r by blast
  have E: "pendingChangeOf (overrides ex_state) (ex_rows ! 4) = None"
    using commit_precedence [of ex_state "ex_rows ! 4"] d by blast
  from r a b c d A B C D E show ?thesis by blast
qed

text \<open>
  Claim C6. In the change-set an earlier entry never has a lower severity than a later
  one (all HIGH before all MEDIUM before all LOW), and of two entries of equal risk the
  earlier one has the higher or equal score (an absent score counting as -1).
\<close>

theorem changes_sorted:
  assumes "rows s \<noteq> []" and "i < j" and "j < length (pendingChanges (openCommitPreview s))"
  shows "rk (risk (pendingChanges (openCommitPreview s) ! i))
           \<ge> rk (risk (pendingChanges (openCommitPreview s) ! j))
       \<and> (risk (pendingChanges (openCommitPreview s) ! i) = risk (pendingChanges (openCommitPreview s) ! j)
            \<longrightarrow> scoreOr (pendingChanges (openCommitPreview s) ! i)
                  \<ge> scoreOr (pendingChanges (openCommitPreview s) ! j))
       \<and> (risk (pendingChanges (openCommitPreview s) ! i) = risk (pendingChanges (openCommitPreview s) ! j)
            \<and> pc_score (pendingChanges (openCommitPreview s) ! i) = Some a
            \<and> pc_score (pendingChanges (openCommitPreview s) ! j) = Some b \<longrightarrow> a \<ge> b)"
proof -
  let ?cs = "pendingChanges (openCommitPreview s)"
  have "sorted_wrt (\<lambda>a b. compareChanges a b \<le> 0) ?cs"
    using assms(1) by (simp add: pendingChanges_open sorted_sortBy)
  with assms(2,3) have "compareChanges (?cs ! i) (?cs ! j) \<le> 0"
    by (simp add: sorted_wrt_iff_nth_less)
  then have "rk (risk (?cs ! i)) > rk (risk (?cs ! j))
     \<or> (risk (?cs ! i) = risk (?cs ! j) \<and> scoreOr (?cs ! i) \<ge> scoreOr (?cs ! j))"
    by (simp add: compareChanges_order)
  then show ?thesis by (auto simp: scoreOr_def)
qed

theorem changes_sorted_witness:
  "rows ex_state \<noteq> [] \<and> (0::nat) < 1 \<and> 1 < length (pendingChanges (openCommitPreview ex_state))
   \<and> map (\<lambda>c. (pc_index c, risk c, pc_score c)) (pendingChanges (openCommitPreview ex_state))
       = [(5, HIGH, Some 0.5), (3, HIGH, Some 0.3), (1, MEDIUM, Some 0.7), (0, LOW, Some 0.93)]
   \<and> rk (risk (pendingChanges (openCommitPreview ex_state) ! 0))
        \<ge> rk (risk (pendingChanges (openCommitPreview ex_state) ! 1))
   \<and> scoreOr (pendingChanges (openCommitPreview ex_state) ! 0)
        \<ge> scoreOr (pendingChanges (openCommitPreview ex_state) ! 1)"
proof -
  have r: "rows ex_state \<noteq> []" by code_simp
  have l: "1 < length (pendingChanges (openCommitPreview ex_state))" by code_simp
  have e: "risk (pendingChanges (openCommitPreview ex_state) ! 0)
             = risk (pendingChanges (openCommitPreview ex_state) ! 1)"
    by code_simp
  have m: "map (\<lambda>c. (pc_index c, risk c, pc_score c)) (pendingChanges (openCommitPreview ex_state))
       = [(5, HIGH, Some 0.5), (3, HIGH, Some 0.3), (1, MEDIUM, Some 0.7), (0, LOW, Some 0.93)]"
    by code_simp
  from changes_sorted [OF r _ l, of 0] e r l m show ?thesis by simp
qed

text \<open>
  Claim C7. Two invocations on states with the same rows, the same override map and the
  same alias map produce the same change-set in the same order, whatever the rest of the
  state holds (timings of the last run, earlier change-set, filters). With no rows both
  invocations leave the state as it is. The order does not depend on how the sort is
  carried out: every stable sorting of the collected entries for the comparator is the
  change-set produced.
\<close>

theorem commit_deterministic:
  assumes "rows s1 = rows s2" and "overrides s1 = overrides s2" and "aliases s1 = aliases s2"
  shows "(rows s1 \<noteq> [] \<longrightarrow>
            pendingChanges (openCommitPreview s1) = pendingChanges (openCommitPreview s2)
          \<and> commitPreviewOpen (openCommitPreview s1) \<and> commitPreviewOpen (openCommitPreview s2))
       \<and> (rows s1 = [] \<longrightarrow> openCommitPreview s1 = s1 \<and> openCommitPreview s2 = s2)
       \<and> (rows s1 \<noteq> []
            \<and> mset ys = mset (collectChanges (overrides s1) (rows s1))
            \<and> sorted_wrt (\<lambda>a b. compareChanges a b \<le> 0) ys
            \<and> (\<forall>k\<in>set ys. filter (\<lambda>x. compareChanges k x = 0) ys
                   = filter (\<lambda>x. compareChanges k x = 0) (collectChanges (overrides s1) (rows s1)))
            \<longrightarrow> ys = pendingChanges (openCommitPreview s2))"
proof -
  have "ys = pendingChanges (openCommitPreview s2)"
    if "rows s1 \<noteq> []"
      and m: "mset ys = mset (collectChanges (overrides s1) (rows s1))"
      and s: "sorted_wrt (\<lambda>a b. compareChanges a b \<le> 0) ys"
      and f: "\<forall>k\<in>set ys. filter (\<lambda>x. compareChanges k x = 0) ys
                   = filter (\<lambda>x. compareChanges k x = 0) (collectChanges (overrides s1) (rows s1))"
  proof -
    from f have "sortBy compareChanges (collectChanges (overrides s1) (rows s1)) = ys"
      by (intro sortBy_unique [OF m _ s]) blast
    with that(1) assms show ?thesis by (simp add: openCommitPreview_def)
  qed
  with assms show ?thesis by (simp add: openCommitPreview_def)
qed

theorem commit_deterministic_witness:
  "rows ex_state = rows ex_state_later \<and> overrides ex_state = overrides ex_state_later
   \<and> aliases ex_state = aliases ex_state_later \<and> rows ex_state \<noteq> []
   \<and> lastRun ex_state \<noteq> lastRun ex_state_later
   \<and> pendingChanges (openCommitPreview ex_state) = pendingChanges (openCommitPreview ex_state_later)
   \<and> map pc_index (pendingChanges (openCommitPreview ex_state_later)) = [5, 3, 1, 0]"
proof -
  have a: "rows ex_state = rows ex_state_later" "overrides ex_state = overrides ex_state_later"
      "aliases ex_state = aliases ex_state_later"
    by (simp_all add: ex_state_later_def)
  have r: "rows ex_state \<noteq> []" by code_simp
  have d: "lastRun ex_state \<noteq> lastRun ex_state_later"
    by (simp add: ex_state_later_def ex_state_def)
  let ?cs = "collectChanges (overrides ex_state) (rows ex_state)"
  let ?ys = "sortBy compareChanges ?cs"
  have h: "mset ?ys = mset ?cs" "sorted_wrt (\<lambda>a b. compareChanges a b \<le> 0) ?ys"
    "\<forall>k\<in>set ?ys. filter (\<lambda>x. compareChanges k x = 0) ?ys = filter (\<lambda>x. compareChanges k x = 0) ?cs"
    by (simp_all add: mset_sortBy sorted_sortBy sortBy_stable)
  have i: "map pc_index ?ys = [5, 3, 1, 0]" by code_simp
  note D = commit_deterministic [OF a, of ?ys]
  from D r have 1: "pendingChanges (openCommitPreview ex_state) = pendingChanges (openCommitPreview ex_state_later)"
    by blast
  from D r h have 2: "?ys = pendingChanges (openCommitPreview ex_state_later)" by blast
  from 1 2 i r a d show ?thesis by simp
qed

text \<open>
  Claim C10. Clearing the override of row k removes the entry of k from the override
  map and changes nothing else: the other rows' overrides and the alias map are as
  before. In particular an alias learned from an override of that row is still there
  after the override is cleared; opening the commit preview leaves the aliases alone too.
\<close>

theorem clear_override_frame:
  "overrides (setOverrideForRow k [] s) k = None
   \<and> (\<forall>j. j \<noteq> k \<longrightarrow> overrides (setOverrideForRow k [] s) j = overrides s j)
   \<and> aliases (setOverrideForRow k [] s) = aliases s
   \<and> setOverrideForRow k [] s = s\<lparr>overrides := (overrides s)(k := None)\<rparr>
   \<and> aliases (openCommitPreview s) = aliases s
   \<and> (v \<noteq> [] \<and> find (\<lambda>rr. index rr = k) (rows s) = Some r \<and> norm_str (nameOf r) \<noteq> [] \<longrightarrow>
        aliases (setOverrideForRow k [] (setOverrideForRow k v s)) (norm_str (nameOf r)) = Some v)"
  by (simp add: setOverrideForRow_def openCommitPreview_def Let_def)

theorem clear_override_frame_witness:
  "overrides ex_state 0 = Some ''AAPL'' \<and> overrides (setOverrideForRow 0 [] ex_state) 0 = None
   \<and> (3::nat) \<noteq> 0 \<and> overrides (setOverrideForRow 0 [] ex_state) 3 = Some ''MSFT''
   \<and> aliases (setOverrideForRow 0 [] ex_state) ''apple inc.'' = Some ''AAPL''
   \<and> ''APLE'' \<noteq> [] \<and> find (\<lambda>rr. index rr = 0) (rows ex_state) = Some (ex_rows ! 0)
   \<and> norm_str (nameOf (ex_rows ! 0)) = ''apple inc.''
   \<and> aliases (setOverrideForRow 0 [] (setOverrideForRow 0 ''APLE'' ex_state)) ''apple inc.'' = Some ''APLE''"
proof -
  have a: "overrides ex_state 0 = Some ''AAPL''" "overrides ex_state 3 = Some ''MSFT''"
      "aliases ex_state ''apple inc.'' = Some ''AAPL''"
    by (simp_all add: ex_state_def)
  have f: "find (\<lambda>rr. index rr = 0) (rows ex_state) = Some (ex_rows ! 0)" by code_simp
  have n: "norm_str (nameOf (ex_rows ! 0)) = ''apple inc.''" by code_simp
  from clear_override_frame [of 0 ex_state "''APLE''" "ex_rows ! 0"] a f n
  show ?thesis by simp
qed

lemma filled_status: "\<not> blank sy \<Longrightarrow> resolveStatus sy nm cs = ''FILLED''"
  by (simp add: resolveStatus_def)

text \<open>
  Claim C2, as the code has it. A row with a non-blank original Symbol gets the status
  FILLED. Without an override, a FILLED row commits the symbol of its top candidate, the
  first of its candidate list, with the original Symbol recorded as \<open>fromSymbol\<close>, and
  commits nothing when the list is empty; the committed symbol is the original Symbol
  exactly when the top candidate's symbol is.
\<close>

theorem filled_commit:
  "(\<not> blank sy \<longrightarrow> resolveStatus sy nm cs = ''FILLED'')
   \<and> (status r = ''FILLED'' \<and> \<not> truthy (ov (index r)) \<longrightarrow>
        pendingChangeOf ov r =
          (case cands r of
             [] \<Rightarrow> None
           | c # _ \<Rightarrow>
               if symbol c = [] then None
               else Some \<lparr> pc_index = index r, pc_name = orEmpty (nameOf r),
                           fromSymbol = orEmpty (symbolOf r), toSymbol = symbol c,
                           pc_score = score c, pc_source = source c,
                           risk = riskOf (score c) (source c) \<rparr>))
   \<and> (status r = ''FILLED'' \<and> \<not> truthy (ov (index r)) \<and> \<not> blank (symbolOf r) \<longrightarrow>
        ((\<exists>c. pendingChangeOf ov r = Some c \<and> Some (toSymbol c) = symbolOf r)
          \<longleftrightarrow> (\<exists>tc rest. cands r = tc # rest \<and> Some (symbol tc) = symbolOf r)))"
proof -
  have 1: "pendingChangeOf ov r =
          (case cands r of
             [] \<Rightarrow> None
           | c # _ \<Rightarrow>
               if symbol c = [] then None
               else Some \<lparr> pc_index = index r, pc_name = orEmpty (nameOf r),
                           fromSymbol = orEmpty (symbolOf r), toSymbol = symbol c,
                           pc_score = score c, pc_source = source c,
                           risk = riskOf (score c) (source c) \<rparr>)"
    if "status r = ''FILLED''" "\<not> truthy (ov (index r))"
    using that by (simp add: pendingChangeOf_filled)
  have 2: "(\<exists>c. pendingChangeOf ov r = Some c \<and> Some (toSymbol c) = symbolOf r)
          \<longleftrightarrow> (\<exists>tc rest. cands r = tc # rest \<and> Some (symbol tc) = symbolOf r)"
    if "status r = ''FILLED''" "\<not> truthy (ov (index r))" "\<not> blank (symbolOf r)"
  proof -
    from that(3) have "symbolOf r \<noteq> Some []" by (auto simp: blank_def trim_def)
    then show ?thesis unfolding 1 [OF that(1,2)]
      by (cases "cands r") auto
  qed
  from 1 2 filled_status show ?thesis by blast
qed

text \<open>
  Claim C2 as stated fails: row 1 has the original Symbol GOOG, the status FILLED and
  the candidates GOOGL and GOOG in this order, and without an override the change-set
  commits GOOGL for it; row 4 has the original Symbol IBM and no candidates, and the
  change-set has no entry for it.
\<close>

theorem filled_commit_counterexample:
  "symbolOf (ex_rows ! 1) = Some ''GOOG'' \<and> status (ex_rows ! 1) = ''FILLED''
   \<and> index (ex_rows ! 1) = 1 \<and> overrides ex_state 1 = None
   \<and> map pc_index (pendingChanges (openCommitPreview ex_state)) = [5, 3, 1, 0]
   \<and> fromSymbol (pendingChanges (openCommitPreview ex_state) ! 2) = ''GOOG''
   \<and> toSymbol (pendingChanges (openCommitPreview ex_state) ! 2) = ''GOOGL''
   \<and> symbolOf (ex_rows ! 4) = Some ''IBM'' \<and> status (ex_rows ! 4) = ''FILLED''
   \<and> index (ex_rows ! 4) = 4 \<and> overrides ex_state 4 = None"
  by code_simp

theorem filled_commit_witness:
  "\<not> blank (Some ''GOOG'') \<and> resolveStatus (Some ''GOOG'') (Some ''Alphabet Inc.'') [] = ''FILLED''
   \<and> status (ex_rows ! 1) = ''FILLED'' \<and> \<not> truthy (overrides ex_state (index (ex_rows ! 1)))
   \<and> \<not> blank (symbolOf (ex_rows ! 1))
   \<and> cands (ex_rows ! 1) = [mkCand ''GOOGL'' (Some 0.7), mkCand ''GOOG'' (Some 0.6)]
   \<and> symbolOf (ex_rows ! 1) = Some ''GOOG''
   \<and> map_option toSymbol (pendingChangeOf (overrides ex_state) (ex_rows ! 1)) = Some ''GOOGL''
   \<and> \<not> (\<exists>c. pendingChangeOf (overrides ex_state) (ex_rows ! 1) = Some c
            \<and> Some (toSymbol c) = symbolOf (ex_rows ! 1))"
proof -
  have b: "\<not> blank (Some ''GOOG'')" by code_simp
  have h: "status (ex_rows ! 1) = ''FILLED'' \<and> \<not> truthy (overrides ex_state (index (ex_rows ! 1)))
      \<and> \<not> blank (symbolOf (ex_rows ! 1))"
    by code_simp
  have t: "cands (ex_rows ! 1) = [mkCand ''GOOGL'' (Some 0.7), mkCand ''GOOG'' (Some 0.6)]"
      "symbolOf (ex_rows ! 1) = Some ''GOOG''"
    by code_simp+
  have s: "symbol (mkCand ''GOOGL'' (Some 0.7)) = ''GOOGL''" by (simp add: mkCand_def)
  note F = filled_commit [of "Some ''GOOG''" "Some ''Alphabet Inc.''" "[]" "ex_rows ! 1" "overrides ex_state"]
  from F b have 1: "resolveStatus (Some ''GOOG'') (Some ''Alphabet Inc.'') [] = ''FILLED''" by blast
  from F h have 2: "pendingChangeOf (overrides ex_state) (ex_rows ! 1) =
          (case cands (ex_rows ! 1) of
             [] \<Rightarrow> None
           | c # _ \<Rightarrow>
               if symbol c = [] then None
               else Some \<lparr> pc_index = index (ex_rows ! 1), pc_name = orEmpty (nameOf (ex_rows ! 1)),
                           fromSymbol = orEmpty (symbolOf (ex_rows ! 1)), toSymbol = symbol c,
                           pc_score = score c, pc_source = source c,
                           risk = riskOf (score c) (source c) \<rparr>)"
    by blast
  have 3: "map_option toSymbol (pendingChangeOf (overrides ex_state) (ex_rows ! 1)) = Some ''GOOGL''"
    unfolding 2 t by (simp add: s)
  from F h have "(\<exists>c. pendingChangeOf (overrides ex_state) (ex_rows ! 1) = Some c
            \<and> Some (toSymbol c) = symbolOf (ex_rows ! 1))
      \<longleftrightarrow> (\<exists>tc rest. cands (ex_rows ! 1) = tc # rest \<and> Some (symbol tc) = symbolOf (ex_rows ! 1))"
    by blast
  then have 4: "\<not> (\<exists>c. pendingChangeOf (overrides ex_state) (ex_rows ! 1) = Some c
            \<and> Some (toSymbol c) = symbolOf (ex_rows ! 1))"
    unfolding t by (simp add: s)
  from b h t 1 3 4 show ?thesis by blast
qed

section \<open>Bulk apply\<close>

lemma bulkStep_eq:
  "bulkStep m r (nxt, al, n) =
     (if bulkAccepts m r
      then (nxt(index r \<mapsto> symbol (hd (cands r))),
            (if norm_str (nameOf r) \<noteq> [] then al(norm_str (nameOf r) \<mapsto> symbol (hd (cands r))) else al),
            Suc n)
      else (nxt, al, n))"
  by (auto simp: bulkStep_def bulkAccepts_def Let_def split: option.splits)

lemma bulkStep_overrides:
  "fst (bulkStep m r (nxt, al, n)) k =
     (if bulkAccepts m r \<and> index r = k then Some (symbol (hd (cands r))) else nxt k)"
  by (simp add: bulkStep_eq)

lemma bulkStep_aliases:
  "fst (snd (bulkStep m r (nxt, al, n))) nm =
     (if bulkAccepts m r \<and> norm_str (nameOf r) = nm \<and> nm \<noteq> []
      then Some (symbol (hd (cands r))) else al nm)"
  by (simp add: bulkStep_eq)

lemma bulkLoop_overrides_untouched:
  "(\<forall>r\<in>set rs. bulkAccepts m r \<longrightarrow> index r \<noteq> k) \<Longrightarrow>
     fst (bulkLoop m rs (nxt, al, n)) k = nxt k"
proof (induction rs arbitrary: nxt al n)
  case Nil
  then show ?case by simp
next
  case (Cons x xs)
  obtain nxt' al' n' where st: "bulkStep m x (nxt, al, n) = (nxt', al', n')"
    by (cases "bulkStep m x (nxt, al, n)")
  from bulkStep_overrides [of m x nxt al n k] st Cons.prems have "nxt' k = nxt k" by auto
  moreover from Cons.prems have "fst (bulkLoop m xs (nxt', al', n')) k = nxt' k"
    by (intro Cons.IH) simp
  ultimately show ?case by (simp add: st)
qed

lemma bulkLoop_overrides_set:
  "nxt k = Some v \<or> (\<exists>r\<in>set rs. bulkAccepts m r \<and> index r = k) \<Longrightarrow>
   (\<forall>r\<in>set rs. bulkAccepts m r \<and> index r = k \<longrightarrow> symbol (hd (cands r)) = v) \<Longrightarrow>
     fst (bulkLoop m rs (nxt, al, n)) k = Some v"
proof (induction rs arbitrary: nxt al n)
  case Nil
  then show ?case by simp
next
  case (Cons x xs)
  obtain nxt' al' n' where st: "bulkStep m x (nxt, al, n) = (nxt', al', n')"
    by (cases "bulkStep m x (nxt, al, n)")
  from bulkStep_overrides [of m x nxt al n k] st
  have nk: "nxt' k = (if bulkAccepts m x \<and> index x = k then Some (symbol (hd (cands x))) else nxt k)"
    by simp
  from Cons.prems nk have "nxt' k = Some v \<or> (\<exists>r\<in>set xs. bulkAccepts m r \<and> index r = k)"
    by auto
  moreover from Cons.prems(2)
  have "\<forall>r\<in>set xs. bulkAccepts m r \<and> index r = k \<longrightarrow> symbol (hd (cands r)) = v"
    by simp
  ultimately have "fst (bulkLoop m xs (nxt', al', n')) k = Some v" by (rule Cons.IH)
  then show ?case by (simp add: st)
qed

lemma bulkLoop_aliases_untouched:
  "nm = [] \<or> (\<forall>r\<in>set rs. bulkAccepts m r \<longrightarrow> norm_str (nameOf r) \<noteq> nm) \<Longrightarrow>
     fst (snd (bulkLoop m rs (nxt, al, n))) nm = al nm"
proof (induction rs arbitrary: nxt al n)
  case Nil
  then show ?case by simp
next
  case (Cons x xs)
  obtain nxt' al' n' where st: "bulkStep m x (nxt, al, n) = (nxt', al', n')"
    by (cases "bulkStep m x (nxt, al, n)")
  from bulkStep_aliases [of m x nxt al n nm] st Cons.prems have "al' nm = al nm" by auto
  moreover from Cons.prems have "fst (snd (bulkLoop m xs (nxt', al', n'))) nm = al' nm"
    by (intro Cons.IH) auto
  ultimately show ?case by (simp add: st)
qed

lemma bulkLoop_aliases_set:
  "nm \<noteq> [] \<Longrightarrow>
   al nm = Some v \<or> (\<exists>r\<in>set rs. bulkAccepts m r \<and> norm_str (nameOf r) = nm) \<Longrightarrow>
   (\<forall>r\<in>set rs. bulkAccepts m r \<and> norm_str (nameOf r) = nm \<longrightarrow> symbol (hd (cands r)) = v) \<Longrightarrow>
     fst (snd (bulkLoop m rs (nxt, al, n))) nm = Some v"
proof (induction rs arbitrary: nxt al n)
  case Nil
  then show ?case by simp
next
  case (Cons x xs)
  obtain nxt' al' n' where st: "bulkStep m x (nxt, al, n) = (nxt', al', n')"
    by (cases "bulkStep m x (nxt, al, n)")
  from bulkStep_aliases [of m x nxt al n nm] st Cons.prems(1)
  have nk: "al' nm = (if bulkAccepts m x \<and> norm_str (nameOf x) = nm
                      then Some (symbol (hd (cands x))) else al nm)"
    by simp
  from Cons.prems nk
  have "al' nm = Some v \<or> (\<exists>r\<in>set xs. bulkAccepts m r \<and> norm_str (nameOf r) = nm)"
    by auto
  moreover from Cons.prems(3)
  have "\<forall>r\<in>set xs. bulkAccepts m r \<and> norm_str (nameOf r) = nm \<longrightarrow> symbol (hd (cands r)) = v"
    by simp
  ultimately have "fst (snd (bulkLoop m xs (nxt', al', n'))) nm = Some v"
    using Cons.prems(1) by (intro Cons.IH)
  then show ?case by (simp add: st)
qed

lemma bulkApply_fields:
  "overrides (bulkApplyTopCandidates s) = fst (bulkLoop (bulkMinScore s) (filtered s) (overrides s, aliases s, 0))"
  "aliases (bulkApplyTopCandidates s) = fst (snd (bulkLoop (bulkMinScore s) (filtered s) (overrides s, aliases s, 0)))"
  "rows (bulkApplyTopCandidates s) = rows s"
  by (simp_all add: bulkApplyTopCandidates_def split: prod.splits)

text \<open>
  Claim C5, as the code has it. Bulk-apply writes for exactly the visible rows whose
  status is FILLED or AMBIGUOUS, that have a candidate, and whose top score is not a
  number below the threshold (it is at least the threshold, or absent). For such a row
  the override of its index becomes the top candidate's symbol, and the alias of its
  normalized name becomes that symbol when the normalized name is non-empty (rows that
  share an index or a name are taken to agree on the symbol; otherwise the last one
  wins). An index or a name of no such row keeps its override or alias.
\<close>

theorem bulk_apply_effect:
  "(bulkAccepts m r \<longleftrightarrow>
      (status r = ''FILLED'' \<or> status r = ''AMBIGUOUS'') \<and> cands r \<noteq> []
      \<and> (\<forall>sc. score (hd (cands r)) = Some sc \<longrightarrow> sc \<ge> m))
   \<and> (r \<in> set (filtered s) \<and> bulkAccepts (bulkMinScore s) r
        \<and> (\<forall>r'\<in>set (filtered s). bulkAccepts (bulkMinScore s) r' \<and> index r' = index r
              \<longrightarrow> symbol (hd (cands r')) = symbol (hd (cands r)))
        \<longrightarrow> overrides (bulkApplyTopCandidates s) (index r) = Some (symbol (hd (cands r))))
   \<and> (r \<in> set (filtered s) \<and> bulkAccepts (bulkMinScore s) r \<and> norm_str (nameOf r) \<noteq> []
        \<and> (\<forall>r'\<in>set (filtered s). bulkAccepts (bulkMinScore s) r'
              \<and> norm_str (nameOf r') = norm_str (nameOf r)
              \<longrightarrow> symbol (hd (cands r')) = symbol (hd (cands r)))
        \<longrightarrow> aliases (bulkApplyTopCandidates s) (norm_str (nameOf r)) = Some (symbol (hd (cands r))))
   \<and> ((\<forall>r'\<in>set (filtered s). bulkAccepts (bulkMinScore s) r' \<longrightarrow> index r' \<noteq> k)
        \<longrightarrow> overrides (bulkApplyTopCandidates s) k = overrides s k)
   \<and> (nm = [] \<or> (\<forall>r'\<in>set (filtered s). bulkAccepts (bulkMinScore s) r'
                     \<longrightarrow> norm_str (nameOf r') \<noteq> nm)
        \<longrightarrow> aliases (bulkApplyTopCandidates s) nm = aliases s nm)"
proof -
  let ?m = "bulkMinScore s" and ?fs = "filtered s"
  have 0: "bulkAccepts m r \<longleftrightarrow>
      (status r = ''FILLED'' \<or> status r = ''AMBIGUOUS'') \<and> cands r \<noteq> []
      \<and> (\<forall>sc. score (hd (cands r)) = Some sc \<longrightarrow> sc \<ge> m)"
    by (cases "score (hd (cands r))") (simp_all add: bulkAccepts_def)
  have 1: "overrides (bulkApplyTopCandidates s) (index r) = Some (symbol (hd (cands r)))"
    if "r \<in> set ?fs \<and> bulkAccepts ?m r
      \<and> (\<forall>r'\<in>set ?fs. bulkAccepts ?m r' \<and> index r' = index r
              \<longrightarrow> symbol (hd (cands r')) = symbol (hd (cands r)))"
  proof -
    from that have a: "overrides s (index r) = Some (symbol (hd (cands r)))
        \<or> (\<exists>x\<in>set ?fs. bulkAccepts ?m x \<and> index x = index r)"
      by blast
    from that have b: "\<forall>r'\<in>set ?fs. bulkAccepts ?m r' \<and> index r' = index r
              \<longrightarrow> symbol (hd (cands r')) = symbol (hd (cands r))"
      by blast
    show ?thesis unfolding bulkApply_fields by (rule bulkLoop_overrides_set [where nxt = "overrides s" and k = "index r", OF a b])
  qed
  have 2: "aliases (bulkApplyTopCandidates s) (norm_str (nameOf r)) = Some (symbol (hd (cands r)))"
    if "r \<in> set ?fs \<and> bulkAccepts ?m r \<and> norm_str (nameOf r) \<noteq> []
      \<and> (\<forall>r'\<in>set ?fs. bulkAccepts ?m r' \<and> norm_str (nameOf r') = norm_str (nameOf r)
              \<longrightarrow> symbol (hd (cands r')) = symbol (hd (cands r)))"
  proof -
    from that have n: "norm_str (nameOf r) \<noteq> []" by blast
    from that have a: "aliases s (norm_str (nameOf r)) = Some (symbol (hd (cands r)))
        \<or> (\<exists>x\<in>set ?fs. bulkAccepts ?m x \<and> norm_str (nameOf x) = norm_str (nameOf r))"
      by blast
    from that have b: "\<forall>r'\<in>set ?fs. bulkAccepts ?m r' \<and> norm_str (nameOf r') = norm_str (nameOf r)
              \<longrightarrow> symbol (hd (cands r')) = symbol (hd (cands r))"
      by blast
    show ?thesis unfolding bulkApply_fields by (rule bulkLoop_aliases_set [where al = "aliases s" and nm = "norm_str (nameOf r)", OF n a b])
  qed
  have 3: "overrides (bulkApplyTopCandidates s) k = overrides s k"
    if "\<forall>r'\<in>set ?fs. bulkAccepts ?m r' \<longrightarrow> index r' \<noteq> k"
    unfolding bulkApply_fields by (rule bulkLoop_overrides_untouched [where nxt = "overrides s" and k = k, OF that])
  have 4: "aliases (bulkApplyTopCandidates s) nm = aliases s nm"
    if "nm = [] \<or> (\<forall>r'\<in>set ?fs. bulkAccepts ?m r' \<longrightarrow> norm_str (nameOf r') \<noteq> nm)"
    unfolding bulkApply_fields by (rule bulkLoop_aliases_untouched [where al = "aliases s" and nm = nm, OF that])
  show ?thesis
  proof (intro conjI)
    show "bulkAccepts m r \<longleftrightarrow>
      (status r = ''FILLED'' \<or> status r = ''AMBIGUOUS'') \<and> cands r \<noteq> []
      \<and> (\<forall>sc. score (hd (cands r)) = Some sc \<longrightarrow> sc \<ge> m)"
      by (rule 0)
  qed (use 1 2 3 4 in blast)+
qed

text \<open>
  Claim C5 as stated fails: under the threshold 0.8 a row whose top candidate has no
  score receives an override, and a row with a blank name and the top score 0.9 receives
  an override but no alias.
\<close>

theorem bulk_apply_counterexample:
  "map index (filtered ex_noscore_state) = [0, 1]
   \<and> bulkMinScore ex_noscore_state = 0.8
   \<and> status (rows ex_noscore_state ! 0) = ''AMBIGUOUS''
   \<and> score (hd (cands (rows ex_noscore_state ! 0))) = None
   \<and> overrides ex_noscore_state 0 = None
   \<and> overrides (bulkApplyTopCandidates ex_noscore_state) 0 = Some ''ACME''
   \<and> status (rows ex_noscore_state ! 1) = ''AMBIGUOUS''
   \<and> score (hd (cands (rows ex_noscore_state ! 1))) = Some 0.9
   \<and> overrides (bulkApplyTopCandidates ex_noscore_state) 1 = Some ''BETA''
   \<and> norm_str (nameOf (rows ex_noscore_state ! 1)) = []
   \<and> aliases (bulkApplyTopCandidates ex_noscore_state) [] = None"
  by code_simp

theorem bulk_apply_effect_witness:
  "map (\<lambda>r. (index r, score (hd (cands r)))) (filtered ex_bulk_state)
       = [(0, Some 0.9), (1, Some 0.7), (2, Some 0.5)]
   \<and> bulkMinScore ex_bulk_state = 0.8
   \<and> overrides (bulkApplyTopCandidates ex_bulk_state) 0 = Some ''AAPL''
   \<and> aliases (bulkApplyTopCandidates ex_bulk_state) ''apple inc.'' = Some ''AAPL''
   \<and> overrides (bulkApplyTopCandidates ex_bulk_state) 1 = None
   \<and> overrides (bulkApplyTopCandidates ex_bulk_state) 2 = None
   \<and> aliases (bulkApplyTopCandidates ex_bulk_state) ''microsoft'' = None
   \<and> aliases (bulkApplyTopCandidates ex_bulk_state) ''tesla'' = None"
proof -
  let ?s = ex_bulk_state
  let ?r = "rows ex_bulk_state ! 0"
  have f: "map (\<lambda>r. (index r, score (hd (cands r)))) (filtered ?s)
       = [(0, Some 0.9), (1, Some 0.7), (2, Some 0.5)]"
    by code_simp
  have m: "bulkMinScore ?s = 0.8" by (simp add: ex_bulk_state_def)
  have h1: "?r \<in> set (filtered ?s) \<and> bulkAccepts (bulkMinScore ?s) ?r
        \<and> (\<forall>r'\<in>set (filtered ?s). bulkAccepts (bulkMinScore ?s) r' \<and> index r' = index ?r
              \<longrightarrow> symbol (hd (cands r')) = symbol (hd (cands ?r)))"
    by code_simp
  have h2: "?r \<in> set (filtered ?s) \<and> bulkAccepts (bulkMinScore ?s) ?r \<and> norm_str (nameOf ?r) \<noteq> []
        \<and> (\<forall>r'\<in>set (filtered ?s). bulkAccepts (bulkMinScore ?s) r'
              \<and> norm_str (nameOf r') = norm_str (nameOf ?r)
              \<longrightarrow> symbol (hd (cands r')) = symbol (hd (cands ?r)))"
    by code_simp
  have v: "index ?r = 0" "symbol (hd (cands ?r)) = ''AAPL''" "norm_str (nameOf ?r) = ''apple inc.''"
    by code_simp+
  have h3: "\<forall>r'\<in>set (filtered ?s). bulkAccepts (bulkMinScore ?s) r' \<longrightarrow> index r' \<noteq> 1"
    "\<forall>r'\<in>set (filtered ?s). bulkAccepts (bulkMinScore ?s) r' \<longrightarrow> index r' \<noteq> 2"
    by code_simp+
  have h4: "\<forall>r'\<in>set (filtered ?s). bulkAccepts (bulkMinScore ?s) r' \<longrightarrow> norm_str (nameOf r') \<noteq> ''microsoft''"
    "\<forall>r'\<in>set (filtered ?s). bulkAccepts (bulkMinScore ?s) r' \<longrightarrow> norm_str (nameOf r') \<noteq> ''tesla''"
    by code_simp+
  have e: "overrides ?s 1 = None" "overrides ?s 2 = None" "aliases ?s ''microsoft'' = None"
    "aliases ?s ''tesla'' = None"
    by (simp_all add: ex_bulk_state_def)
  note E1 = bulk_apply_effect [of "0.8" ?r ?s 1 "''microsoft''"]
  note E2 = bulk_apply_effect [of "0.8" ?r ?s 2 "''tesla''"]
  from E1 h1 have "overrides (bulkApplyTopCandidates ?s) (index ?r) = Some (symbol (hd (cands ?r)))"
    by blast
  then have A: "overrides (bulkApplyTopCandidates ?s) 0 = Some ''AAPL''" by (simp only: v)
  from E1 h2
  have "aliases (bulkApplyTopCandidates ?s) (norm_str (nameOf ?r)) = Some (symbol (hd (cands ?r)))"
    by blast
  then have B: "aliases (bulkApplyTopCandidates ?s) ''apple inc.'' = Some ''AAPL''"
    by (simp only: v)
  from E1 h3(1) have "overrides (bulkApplyTopCandidates ?s) 1 = overrides ?s 1" by blast
  then have C1: "overrides (bulkApplyTopCandidates ?s) 1 = None" by (simp only: e)
  from E1 h4(1) have "aliases (bulkApplyTopCandidates ?s) ''microsoft'' = aliases ?s ''microsoft''"
    by blast
  then have C2: "aliases (bulkApplyTopCandidates ?s) ''microsoft'' = None" by (simp only: e)
  from E2 h3(2) have "overrides (bulkApplyTopCandidates ?s) 2 = overrides ?s 2" by blast
  then have D1: "overrides (bulkApplyTopCandidates ?s) 2 = None" by (simp only: e)
  from E2 h4(2) have "aliases (bulkApplyTopCandidates ?s) ''tesla'' = aliases ?s ''tesla''"
    by blast
  then have D2: "aliases (bulkApplyTopCandidates ?s) ''tesla'' = None" by (simp only: e)
  from f m A B C1 C2 D1 D2 show ?thesis by blast
qed

end
